theory Spec2Isabelle
  imports Complex_Main
begin

section \<open>Compile-time constants of NewPMREMGenerator.ts\<close>

text \<open>
  JavaScript numbers are modelled as follows: quantities that the source only ever
  holds as integers (LOD indices, texel sizes, sample counts, viewport coordinates)
  are \<open>int\<close>; quantities computed with \<open>Math.PI\<close>, \<open>Math.sqrt\<close> and \<open>Math.exp\<close>
  are \<open>real\<close>, i.e. IEEE doubles, and the entries of a \<open>Float32Array\<close>, are idealised
  as exact reals. \<open>Math.sqrt\<close> of a negative number is \<open>NaN\<close> in the source; the
  theorems on the pipeline show that its radicands are positive. The ceiling that
  gives the sample count of a blur is the one place where rounding decides between
  two integers; that quotient is modelled in doubles as well.
\<close>

definition LOD_MIN :: int where
  "LOD_MIN = 3"

definition LOD_MAX :: int where
  "LOD_MAX = 8"

definition SIZE_MAX :: int where
  "SIZE_MAX = 2 ^ nat LOD_MAX"

definition EXTRA_LOD_ROUGHNESS :: "real list" where
  "EXTRA_LOD_ROUGHNESS = [5 / 10, 7 / 10, 1]"

definition TOTAL_LODS :: int where
  "TOTAL_LODS = LOD_MAX - LOD_MIN + 1 + int (length EXTRA_LOD_ROUGHNESS)"

definition MAX_SAMPLES :: int where
  "MAX_SAMPLES = 20"

section \<open>The LOD planner: \<open>PMREMGenerator.constructor\<close>\<close>

text \<open>
  A three.js \<open>BufferAttribute\<close>: a typed array and the number of entries per vertex.
\<close>

record buffer_attribute =
  array :: "real list"
  itemSize :: int

text \<open>
  A three.js \<open>BufferGeometry\<close>, as far as the constructor uses it: its \<open>attributes\<close>
  object, read at the three names the source adds. An attribute the geometry does not
  have is \<open>None\<close>; \<open>new BufferGeometry()\<close> has none.
\<close>

record geometry =
  position :: "buffer_attribute option"
  uv :: "buffer_attribute option"
  faceIndex :: "buffer_attribute option"

definition new_BufferGeometry :: geometry where
  "new_BufferGeometry = \<lparr>position = None, uv = None, faceIndex = None\<rparr>"

text \<open>
  \<open>BufferGeometry.merge\<close> of three.js runs over the attributes of the geometry it is
  called on; for each of them that the argument has too, it copies the argument's array
  into the receiver's array from index \<open>itemSize * offset\<close> on (a typed array ignores a
  write beyond its end, as \<open>xs[j := v]\<close> does). An attribute that the receiver does not
  have is not created. The source only passes offsets from 0 upwards.
\<close>

fun copy_from :: "real list \<Rightarrow> real list \<Rightarrow> nat \<Rightarrow> real list" where
  "copy_from attributeArray1 [] j = attributeArray1"
| "copy_from attributeArray1 (v # attributeArray2) j =
     copy_from (attributeArray1[j := v]) attributeArray2 (Suc j)"

definition merge_attribute ::
  "buffer_attribute option \<Rightarrow> buffer_attribute option \<Rightarrow> int \<Rightarrow> buffer_attribute option" where
  "merge_attribute a1 a2 offset =
     (case a1 of
        None \<Rightarrow> None
      | Some attribute1 \<Rightarrow>
          (case a2 of
             None \<Rightarrow> Some attribute1
           | Some attribute2 \<Rightarrow>
               Some (attribute1\<lparr>array :=
                 copy_from (array attribute1) (array attribute2)
                   (nat (itemSize attribute2 * offset))\<rparr>)))"

definition merge :: "geometry \<Rightarrow> geometry \<Rightarrow> int \<Rightarrow> geometry" where
  "merge planes plane offset =
     \<lparr>position = merge_attribute (position planes) (position plane) offset,
      uv = merge_attribute (uv planes) (uv plane) offset,
      faceIndex = merge_attribute (faceIndex planes) (faceIndex plane) offset\<rparr>"

text \<open>
  The private fields of the class. \<open>lodPlanes\<close> holds, per LOD, the geometry \<open>planes\<close>
  that the constructor pushes after its six calls of \<open>merge\<close>.
\<close>

record pmrem_generator =
  roughness :: "real list"
  sigma :: "real list"
  lodSize :: "int list"
  lodPlanes :: "geometry list"

text \<open>The padded UV rectangle of one LOD (lines 72 to 76).\<close>

definition lod_uv :: "int \<Rightarrow> real list" where
  "lod_uv sizeLod =
     (let texelSize = 1 / (of_int sizeLod - 1);
          mn = - texelSize / 2;
          mx = 1 + texelSize / 2
      in [mn, mn, mx, mn, mx, mx, mn, mn, mx, mx, mn, mx])"

text \<open>
  The quad that the body of the inner loop builds for \<open>face\<close> (lines 81 to 92): a fresh
  geometry with the attributes \<open>position\<close>, \<open>uv\<close> and \<open>faceIndex\<close>.
\<close>

definition face_plane :: "int \<Rightarrow> real list \<Rightarrow> int \<Rightarrow> geometry" where
  "face_plane i uvs face =
     (let x = of_int (face mod 3);
          y = (if i > 2 then 1 else 0)
      in \<lparr>position =
            Some \<lparr>array = [x, y, x + 1, y, x + 1, y + 1, x, y, x + 1, y + 1, x, y + 1],
                  itemSize = 2\<rparr>,
          uv = Some \<lparr>array = uvs, itemSize = 2\<rparr>,
          faceIndex = Some \<lparr>array = replicate 6 (of_int face), itemSize = 1\<rparr>\<rparr>)"

text \<open>The six quads of LOD \<open>i\<close>, in the order in which the inner loop builds them.\<close>

definition lod_planes :: "int \<Rightarrow> int \<Rightarrow> geometry list" where
  "lod_planes i sizeLod = map (face_plane i (lod_uv sizeLod)) [0..5]"

text \<open>
  The calls \<open>planes.merge(plane, offset)\<close> of the inner loop (lines 94 and 95), one per
  quad, with \<open>offset\<close> growing by 6 each time; \<open>merged_planes\<close> is the \<open>planes\<close> that the
  constructor pushes for LOD \<open>i\<close> (lines 78, 79 and 97).
\<close>

fun merge_planes :: "geometry list \<Rightarrow> int \<Rightarrow> geometry \<Rightarrow> geometry" where
  "merge_planes [] offset planes = planes"
| "merge_planes (plane # rest) offset planes =
     merge_planes rest (offset + 6) (merge planes plane offset)"

definition merged_planes :: "int \<Rightarrow> int \<Rightarrow> geometry" where
  "merged_planes i sizeLod = merge_planes (lod_planes i sizeLod) 0 new_BufferGeometry"

text \<open>Sigma and roughness of LOD \<open>i\<close> at resolution \<open>sizeLod\<close> (lines 62 to 68).\<close>

definition lod_sigma_roughness :: "int \<Rightarrow> int \<Rightarrow> real \<times> real" where
  "lod_sigma_roughness i sizeLod =
     (let sigma0 = 1 / of_int sizeLod;
          roughness0 = (1 + sqrt (1 + 4 * pi * of_int sizeLod)) / (2 * pi * of_int sizeLod)
      in if i > LOD_MAX - LOD_MIN
         then (let r = EXTRA_LOD_ROUGHNESS ! nat (i - LOD_MAX + LOD_MIN - 1)
               in (pi * r * r / (1 + r), r))
         else (sigma0, roughness0))"

text \<open>The outer loop of the constructor: \<open>i\<close> counts up, \<open>lod\<close> counts down to \<open>LOD_MIN\<close>.\<close>

function constructor_loop :: "int \<Rightarrow> int \<Rightarrow> pmrem_generator \<Rightarrow> pmrem_generator" where
  "constructor_loop i lod g =
     (if i < TOTAL_LODS then
        (let sizeLod = 2 ^ nat lod;
             sr = lod_sigma_roughness i sizeLod;
             g' = g\<lparr>lodSize := lodSize g @ [sizeLod],
                    sigma := sigma g @ [fst sr],
                    roughness := roughness g @ [snd sr],
                    lodPlanes := lodPlanes g @ [merged_planes i sizeLod]\<rparr>
         in constructor_loop (i + 1) (if lod > LOD_MIN then lod - 1 else lod) g')
      else g)"
  by pat_completeness auto
termination
  by (relation "measure (\<lambda>(i, lod, g). nat (TOTAL_LODS - i))") auto

definition PMREMGenerator :: pmrem_generator where
  "PMREMGenerator =
     constructor_loop 0 LOD_MAX \<lparr>roughness = [], sigma = [], lodSize = [], lodPlanes = []\<rparr>"

section \<open>The convolution engine\<close>

subsection \<open>Textures, render targets and the renderer\<close>

text \<open>
  The metadata of a three.js \<open>Texture\<close> that the source reads. three.js encodes
  formats, types and encodings as numeric constants.
\<close>

record texture =
  format :: nat
  type :: nat
  anisotropy :: nat
  encoding :: nat

text \<open>The texture filters of three.js.\<close>

datatype texture_filter =
  NearestFilter | NearestMipmapNearestFilter | NearestMipmapLinearFilter
  | LinearFilter | LinearMipmapNearestFilter | LinearMipmapLinearFilter

text \<open>The object literal \<open>params\<close> of \<open>$equirectangularToCubeUV\<close>.\<close>

record target_params =
  format :: nat
  magFilter :: texture_filter
  minFilter :: texture_filter
  type :: nat
  generateMipmaps :: bool
  anisotropy :: nat
  encoding :: nat

text \<open>\<open>new WebGLRenderTarget(width, height, params)\<close>: the arguments of the constructor.\<close>

record render_target =
  width :: int
  height :: int
  options :: target_params

datatype target_id = CubeUV | PingPong

datatype env_map = EquirectangularTexture | CubeUVTexture | PingPongTexture

text \<open>
  The uniforms of \<open>BlurShader\<close>. The two encoding uniforms hold the key that the
  source looks up in the imported table \<open>encodings\<close>.
\<close>

record uniforms =
  envMap :: "env_map option"
  copyEquirectangular :: bool
  samples :: int
  weights :: "real list option"
  latitudinal :: bool
  dTheta :: real
  mipInt :: int
  inputEncoding :: nat
  outputEncoding :: nat

definition LinearEncoding :: nat where
  "LinearEncoding = 3000"

definition BlurShader :: uniforms where
  "BlurShader =
     \<lparr>envMap = None, copyEquirectangular = False, samples = 1, weights = None,
      latitudinal = False, dTheta = 0, mipInt = 0,
      inputEncoding = LinearEncoding, outputEncoding = LinearEncoding\<rparr>"

text \<open>
  One \<open>renderer.render\<close> call: the render target and viewport in force, the LOD whose
  planes form the scene's mesh, and a snapshot of the shader's uniforms.
\<close>

record draw_call =
  drawTarget :: "target_id option"
  drawViewport :: "int \<times> int \<times> int \<times> int"
  drawLod :: int
  drawUniforms :: uniforms

text \<open>
  The mutable state the engine threads through its calls: the renderer's viewport and
  render target, the shared uniforms of the blur shader, the draws issued so far, the
  lines written with \<open>console.log\<close> (standard deviation, requested samples, permitted
  samples), and whether the scratch target has been disposed. \<open>blurCalls\<close> is a ghost
  field: the arguments (\<open>lodIn\<close>, \<open>lodOut\<close>, \<open>standardDeviationRadians\<close>) of every
  call of \<open>$gaussianBlur\<close>, in order.
\<close>

record engine =
  viewport :: "int \<times> int \<times> int \<times> int"
  renderTarget :: "target_id option"
  blurUniforms :: uniforms
  draws :: "draw_call list"
  console :: "(real \<times> int \<times> int) list"
  pingPongDisposed :: bool
  blurCalls :: "(int \<times> int \<times> real) list"

definition render :: "int \<Rightarrow> engine \<Rightarrow> engine" where
  "render lod st =
     st\<lparr>draws := draws st @
        [\<lparr>drawTarget = renderTarget st, drawViewport = viewport st, drawLod = lod,
          drawUniforms = blurUniforms st\<rparr>]\<rparr>"

text \<open>
  Reading a JavaScript array: an index outside the array gives \<open>undefined\<close>, here
  \<open>None\<close>.
\<close>

definition js_index :: "'a list \<Rightarrow> int \<Rightarrow> 'a option" where
  "js_index xs i = (if 0 \<le> i \<and> i < int (length xs) then Some (xs ! nat i) else None)"

subsection \<open>\<open>$equirectangularToCubeUV\<close>\<close>

definition equirectangularToCubeUV :: "texture \<Rightarrow> engine \<Rightarrow> render_target \<times> engine" where
  "equirectangularToCubeUV equirectangular st =
     (let params =
            \<lparr>format = texture.format equirectangular,
             magFilter = NearestFilter,
             minFilter = NearestFilter,
             type = texture.type equirectangular,
             generateMipmaps = False,
             anisotropy = texture.anisotropy equirectangular,
             encoding = texture.encoding equirectangular\<rparr>;
          cubeUVRenderTarget =
            \<lparr>width = 3 * SIZE_MAX, height = 3 * SIZE_MAX, options = params\<rparr>;
          u = (blurUniforms st)
            \<lparr>copyEquirectangular := True, envMap := Some EquirectangularTexture\<rparr>;
          st1 = st\<lparr>blurUniforms := u,
                   viewport := (0, 0, 3 * SIZE_MAX, 2 * SIZE_MAX),
                   renderTarget := Some CubeUV\<rparr>
      in (cubeUVRenderTarget, render 0 st1))"

subsection \<open>\<open>$gaussianBlur\<close>\<close>

text \<open>
  The sample count \<open>n\<close> (lines 165 to 168), with the quotient taken over the reals.
  The quotient as the source rounds it in doubles is \<open>double_sample_count\<close> below.
\<close>

definition blur_sample_count :: "real \<Rightarrow> int \<Rightarrow> int" where
  "blur_sample_count standardDeviationRadians inputSize =
     \<lceil>3 * standardDeviationRadians * of_int inputSize * 2 / pi\<rceil>"

definition inverseIntegral :: "int \<Rightarrow> real" where
  "inverseIntegral n = 3 / (of_int (n - 1) * sqrt (2 * pi))"

text \<open>
  The weight array (lines 180 to 184): always \<open>MAX_SAMPLES\<close> entries, spaced for \<open>n\<close>
  samples. For \<open>n = 1\<close> the source divides by zero (its weights are \<open>Infinity\<close> and
  \<open>NaN\<close>); the theorems below are stated for \<open>n \<ge> 2\<close>.
\<close>

definition blur_weight :: "int \<Rightarrow> int \<Rightarrow> real" where
  "blur_weight n i = (let x = 3 * of_int i / of_int (n - 1) in inverseIntegral n * exp (- x * x / 2))"

definition blur_weights :: "int \<Rightarrow> real list" where
  "blur_weights n = map (blur_weight n) [0..MAX_SAMPLES - 1]"

text \<open>The viewport of the output LOD in the atlas (lines 200 to 205).\<close>

definition blur_viewport :: "int \<Rightarrow> int \<Rightarrow> int \<times> int \<times> int \<times> int" where
  "blur_viewport lodOut outputSize =
     (let x = 3 * max 0 (SIZE_MAX - 2 * outputSize);
          y = (if lodOut = 0 then 0 else SIZE_MAX) +
              outputSize * (if lodOut > LOD_MAX - LOD_MIN then lodOut - LOD_MAX + LOD_MIN else 0)
      in (x, y, 3 * outputSize, 2 * outputSize))"

text \<open>
  The whole method. \<open>enc\<close> is \<open>cubeUVRenderTarget.texture.encoding\<close>. Where \<open>lodIn\<close> or
  \<open>lodOut\<close> is outside the planner's tables the source computes with \<open>undefined\<close>; the
  model returns \<open>None\<close> there.
\<close>

definition gaussianBlur ::
  "pmrem_generator \<Rightarrow> nat \<Rightarrow> int \<Rightarrow> int \<Rightarrow> real \<Rightarrow> engine \<Rightarrow> engine option" where
  "gaussianBlur g enc lodIn lodOut standardDeviationRadians st =
     (case (js_index (lodSize g) lodIn, js_index (lodSize g) lodOut) of
        (Some inputSize, Some outputSize) \<Rightarrow>
          (let n = blur_sample_count standardDeviationRadians inputSize;
               st0 = st\<lparr>blurCalls := blurCalls st @ [(lodIn, lodOut, standardDeviationRadians)]\<rparr>;
               st1 = (if n > MAX_SAMPLES
                      then st0\<lparr>console := console st0 @ [(standardDeviationRadians, n, MAX_SAMPLES)]\<rparr>
                      else st0);
               u1 = (blurUniforms st1)
                 \<lparr>copyEquirectangular := False,
                  samples := n,
                  weights := Some (blur_weights n),
                  dTheta := standardDeviationRadians * 3 / of_int (n - 1),
                  inputEncoding := enc,
                  outputEncoding := enc,
                  latitudinal := False,
                  envMap := Some CubeUVTexture,
                  mipInt := lodIn\<rparr>;
               st2 = st1\<lparr>blurUniforms := u1,
                        viewport := blur_viewport lodOut outputSize,
                        renderTarget := Some PingPong\<rparr>;
               st3 = render lodOut st2;
               u2 = u1\<lparr>latitudinal := True, envMap := Some PingPongTexture, mipInt := lodOut\<rparr>;
               st4 = st3\<lparr>blurUniforms := u2, renderTarget := Some CubeUV\<rparr>
           in Some (render lodOut st4))
      | _ \<Rightarrow> None)"

subsection \<open>\<open>$applyPMREM\<close> and \<open>equirectangularToPMREM\<close>\<close>

text \<open>
  The standard deviation of the blur from LOD \<open>i - 1\<close> into LOD \<open>i\<close> (lines 146 to 148).
  The loop reads the table only at indices below \<open>TOTAL_LODS\<close>, its length.
\<close>

definition blur_sigma :: "pmrem_generator \<Rightarrow> int \<Rightarrow> real" where
  "blur_sigma g i =
     sqrt (sigma g ! nat i * sigma g ! nat i - sigma g ! nat (i - 1) * sigma g ! nat (i - 1))"

function applyPMREM_loop :: "pmrem_generator \<Rightarrow> nat \<Rightarrow> int \<Rightarrow> engine \<Rightarrow> engine option" where
  "applyPMREM_loop g enc i st =
     (if i < TOTAL_LODS then
        (case gaussianBlur g enc (i - 1) i (blur_sigma g i) st of
           None \<Rightarrow> None
         | Some st' \<Rightarrow> applyPMREM_loop g enc (i + 1) st')
      else Some st)"
  by pat_completeness auto
termination
  by (relation "measure (\<lambda>(g, enc, i, st). nat (TOTAL_LODS - i))") auto

definition applyPMREM :: "pmrem_generator \<Rightarrow> nat \<Rightarrow> engine \<Rightarrow> engine option" where
  "applyPMREM g enc st =
     (case applyPMREM_loop g enc 1 st of
        None \<Rightarrow> None
      | Some st' \<Rightarrow> Some (st'\<lparr>pingPongDisposed := True\<rparr>))"

definition equirectangularToPMREM ::
  "pmrem_generator \<Rightarrow> texture \<Rightarrow> engine \<Rightarrow> (render_target \<times> engine) option" where
  "equirectangularToPMREM g equirectangular st =
     (case equirectangularToCubeUV equirectangular st of
        (cubeUVRenderTarget, st1) \<Rightarrow>
          (case applyPMREM g (target_params.encoding (options cubeUVRenderTarget)) st1 of
             None \<Rightarrow> None
           | Some st2 \<Rightarrow> Some (cubeUVRenderTarget, st2)))"

subsection \<open>The fragment shader of \<open>BlurShader\<close>\<close>

text \<open>
  The blur branch of the shader (lines 277 to 299): the loop over \<open>i\<close> is bounded by the
  define \<open>n = MAX_SAMPLES\<close> and leaves at \<open>i \<ge> samples\<close>; the loop over \<open>dir\<close> skips
  \<open>dir = 1\<close> at \<open>i = 0\<close>. \<open>shader_taps\<close> lists the pairs (\<open>i\<close>, \<open>dir\<close>) that reach the
  accumulation, \<open>shader_accumulate\<close> is the weighted sum it forms from the texel value
  \<open>texel (dir * i)\<close> sampled at each pair.
\<close>

definition shader_taps :: "int \<Rightarrow> (int \<times> int) list" where
  "shader_taps cnt =
     concat (map (\<lambda>i. map (\<lambda>dir. (i, dir)) (filter (\<lambda>dir. \<not> (i = 0 \<and> dir = 1)) [- 1, 1]))
       (takeWhile (\<lambda>i. \<not> i \<ge> cnt) [0..MAX_SAMPLES - 1]))"

definition shader_accumulate :: "int \<Rightarrow> real list \<Rightarrow> (int \<Rightarrow> real) \<Rightarrow> real" where
  "shader_accumulate cnt ws texel =
     sum_list (map (\<lambda>(i, dir). ws ! nat i * texel (dir * i)) (shader_taps cnt))"

text \<open>The total weight a blur pass applies: the response to a constant texel value 1.\<close>

definition weight_total :: "int \<Rightarrow> real" where
  "weight_total n = shader_accumulate n (blur_weights n) (\<lambda>_. 1)"

subsection \<open>The sample count in double arithmetic\<close>

text \<open>
  The source evaluates lines 166 to 168 in IEEE 754 doubles, from left to right: three
  products and one quotient, each rounded to the nearest double (ties to the even
  significand), with \<open>Math.PI\<close> the double nearest to pi. \<open>fl x\<close> is the double nearest
  to \<open>x\<close> for \<open>x\<close> in the normal range of doubles: \<open>ulp\<close> is the distance between
  neighbouring doubles in the binade of \<open>x\<close>. \<open>Math.ceil\<close> is exact.
\<close>

definition round_even :: "real \<Rightarrow> int" where
  "round_even y =
     (let k = \<lfloor>y\<rfloor>; r = y - of_int k
      in if r < 1 / 2 then k else if 1 / 2 < r then k + 1 else if even k then k else k + 1)"

definition fl :: "real \<Rightarrow> real" where
  "fl x =
     (if x = 0 then 0
      else (let e = \<lfloor>log 2 \<bar>x\<bar>\<rfloor>; ulp = 2 powi (e - 52)
            in of_int (round_even (x / ulp)) * ulp))"

definition Math_PI :: real where
  "Math_PI = 884279719003555 / 2 ^ 48"

definition double_sample_count :: "real \<Rightarrow> int \<Rightarrow> int" where
  "double_sample_count standardDeviationRadians inputSize =
     \<lceil>fl (fl (fl (fl (3 * standardDeviationRadians) * of_int inputSize) * 2) / Math_PI)\<rceil>"

text \<open>
  A standard deviation settles the sample count when the count is the same for every
  standard deviation within the relative distance \<open>1 / 2 ^ 50\<close> of it: the quotient
  is then too far from an integer for the roundings of the doubles to move its ceiling.
\<close>

definition count_settled :: "real \<Rightarrow> int \<Rightarrow> bool" where
  "count_settled sd inputSize \<longleftrightarrow>
     blur_sample_count (sd * (1 - 1 / 2 ^ 50)) inputSize =
     blur_sample_count (sd * (1 + 1 / 2 ^ 50)) inputSize"

subsection \<open>What one blur pass adds to the state\<close>

text \<open>
  The draws and console lines of a single call of \<open>$gaussianBlur\<close>, read off a run that
  starts from an engine which has drawn and logged nothing.
\<close>

definition idle_engine :: engine where
  "idle_engine =
     \<lparr>viewport = (0, 0, 0, 0), renderTarget = None, blurUniforms = BlurShader, draws = [],
      console = [], pingPongDisposed = False, blurCalls = []\<rparr>"

definition blur_pass_draws :: "pmrem_generator \<Rightarrow> nat \<Rightarrow> int \<Rightarrow> int \<Rightarrow> real \<Rightarrow> draw_call list" where
  "blur_pass_draws g enc lodIn lodOut sd =
     (case gaussianBlur g enc lodIn lodOut sd idle_engine of
        None \<Rightarrow> [] | Some st' \<Rightarrow> draws st')"

definition blur_pass_console :: "pmrem_generator \<Rightarrow> nat \<Rightarrow> int \<Rightarrow> int \<Rightarrow> real \<Rightarrow> (real \<times> int \<times> int) list" where
  "blur_pass_console g enc lodIn lodOut sd =
     (case gaussianBlur g enc lodIn lodOut sd idle_engine of
        None \<Rightarrow> [] | Some st' \<Rightarrow> console st')"

section \<open>Enclosures of the weight sums in integer arithmetic\<close>

text \<open>
  Fixed-point numbers with 24 binary digits: the integer \<open>a\<close> stands for \<open>a / 2 ^ 24\<close>.
  \<open>fx_up\<close> and \<open>fx_dn\<close> round a real to the fixed-point number above and below it;
  \<open>mul_up\<close> and \<open>mul_dn\<close> multiply two fixed-point numbers and round the product up
  and down (\<open>drop_bit 24\<close> divides by \<open>2 ^ 24\<close> and rounds down).
\<close>

definition FX :: int where
  "FX = 2 ^ 24"

definition fx :: "int \<Rightarrow> real" where
  "fx a = of_int a / of_int FX"

definition fx_up :: "real \<Rightarrow> int" where
  "fx_up x = \<lceil>x * of_int FX\<rceil>"

definition fx_dn :: "real \<Rightarrow> int" where
  "fx_dn x = \<lfloor>x * of_int FX\<rfloor>"

definition mul_up :: "int \<Rightarrow> int \<Rightarrow> int" where
  "mul_up a b = - drop_bit 24 (- (a * b))"

definition mul_dn :: "int \<Rightarrow> int \<Rightarrow> int" where
  "mul_dn a b = drop_bit 24 (a * b)"

definition sqr_up :: "int \<Rightarrow> int" where
  "sqr_up a = mul_up a a"

definition sqr_dn :: "int \<Rightarrow> int" where
  "sqr_dn a = mul_dn a a"

text \<open>
  The Taylor polynomials of \<open>exp (- s)\<close> of degree 4 and 5, which lie above and below it
  for \<open>s \<ge> 0\<close>; \<open>exp_hi t\<close> and \<open>exp_lo t\<close> raise their values at \<open>t / 16\<close> to the
  16th power by four squarings, and enclose \<open>exp (- t)\<close>.
\<close>

definition exp_taylor_hi :: "real \<Rightarrow> real" where
  "exp_taylor_hi s = 1 - s * (1 - s / 2 * (1 - s / 3 * (1 - s / 4)))"

definition exp_taylor_lo :: "real \<Rightarrow> real" where
  "exp_taylor_lo s = 1 - s * (1 - s / 2 * (1 - s / 3 * (1 - s / 4 * (1 - s / 5))))"

definition exp_hi :: "real \<Rightarrow> int" where
  "exp_hi t = sqr_up (sqr_up (sqr_up (sqr_up (fx_up (exp_taylor_hi (t / 16))))))"

definition exp_lo :: "real \<Rightarrow> int" where
  "exp_lo t = sqr_dn (sqr_dn (sqr_dn (sqr_dn (max 0 (fx_dn (exp_taylor_lo (t / 16)))))))"

text \<open>
  The exponent \<open>x * x / 2\<close> of weight \<open>i\<close> for \<open>n\<close> samples. It is \<open>i * i\<close> times the
  exponent of weight 1, so with \<open>q\<close> the exponential of weight 1 the exponential of weight
  \<open>i\<close> is \<open>q\<close> to the power \<open>i * i\<close>. \<open>run_up\<close> and \<open>run_dn\<close> add these powers up along a
  list of consecutive indices: \<open>e\<close> is the power for the head of the list, \<open>d\<close> the ratio
  to the next one (\<open>q\<close> to the power \<open>2 i + 1\<close>) and \<open>q2\<close> the square of \<open>q\<close>.
\<close>

definition gauss_arg :: "int \<Rightarrow> int \<Rightarrow> real" where
  "gauss_arg n i = (let x = 3 * of_int i / of_int (n - 1) in x * x / 2)"

fun run_up :: "int list \<Rightarrow> int \<Rightarrow> int \<Rightarrow> int \<Rightarrow> int" where
  "run_up [] q2 d e = 0"
| "run_up (i # js) q2 d e = e + run_up js q2 (mul_up d q2) (mul_up e d)"

fun run_dn :: "int list \<Rightarrow> int \<Rightarrow> int \<Rightarrow> int \<Rightarrow> int" where
  "run_dn [] q2 d e = 0"
| "run_dn (i # js) q2 d e = e + run_dn js q2 (mul_dn d q2) (mul_dn e d)"

definition tail_from_up :: "int \<Rightarrow> int list \<Rightarrow> int" where
  "tail_from_up e js = run_up js (mul_up e e) (mul_up (mul_up e e) e) e"

definition tail_from_dn :: "int \<Rightarrow> int list \<Rightarrow> int" where
  "tail_from_dn e js = run_dn js (mul_dn e e) (mul_dn (mul_dn e e) e) e"

text \<open>
  The enclosure of the sum of the exponentials over the indices the shader uses beyond
  0, and the two comparisons (in thousandths, with the enclosure of \<open>sqrt (2 pi)\<close>
  between 2.50662827 and 2.50662828) that place the total weight above \<open>a / 1000\<close> and
  below \<open>b / 1000\<close>.
\<close>

definition tail_hi :: "int \<Rightarrow> int" where
  "tail_hi n = tail_from_up (exp_hi (gauss_arg n 1)) [1..min n MAX_SAMPLES - 1]"

definition tail_lo :: "int \<Rightarrow> int" where
  "tail_lo n = tail_from_dn (exp_lo (gauss_arg n 1)) [1..min n MAX_SAMPLES - 1]"

definition weight_above :: "int \<Rightarrow> int \<Rightarrow> bool" where
  "weight_above a n \<longleftrightarrow> a * FX * (n - 1) * 250662828 < 3 * 10 ^ 11 * (FX + 2 * tail_lo n)"

definition weight_below :: "int \<Rightarrow> int \<Rightarrow> bool" where
  "weight_below b n \<longleftrightarrow> 3 * 10 ^ 11 * (FX + 2 * tail_hi n) < b * FX * (n - 1) * 250662827"

section \<open>The planner's tables\<close>

declare constructor_loop.simps [simp del]

lemma constructor_loop_step:
  "i < TOTAL_LODS \<Longrightarrow>
   constructor_loop i lod g =
     constructor_loop (i + 1) (if lod > LOD_MIN then lod - 1 else lod)
       (g\<lparr>lodSize := lodSize g @ [2 ^ nat lod],
          sigma := sigma g @ [fst (lod_sigma_roughness i (2 ^ nat lod))],
          roughness := roughness g @ [snd (lod_sigma_roughness i (2 ^ nat lod))],
          lodPlanes := lodPlanes g @ [merged_planes i (2 ^ nat lod)]\<rparr>)"
  by (subst constructor_loop.simps) (simp add: Let_def)

lemma constructor_loop_stop: "\<not> i < TOTAL_LODS \<Longrightarrow> constructor_loop i lod g = g"
  by (subst constructor_loop.simps) simp

lemma TOTAL_LODS_eq: "TOTAL_LODS = 9"
  by (simp add: TOTAL_LODS_def LOD_MAX_def LOD_MIN_def EXTRA_LOD_ROUGHNESS_def)

lemma lodSize_PMREMGenerator:
  "lodSize PMREMGenerator = [256, 128, 64, 32, 16, 8, 8, 8, 8]"
  by (simp add: PMREMGenerator_def constructor_loop_step constructor_loop_stop
      TOTAL_LODS_eq LOD_MAX_def LOD_MIN_def)

lemmas lod_consts = TOTAL_LODS_eq LOD_MAX_def LOD_MIN_def EXTRA_LOD_ROUGHNESS_def

lemma sigma_PMREMGenerator:
  "sigma PMREMGenerator = [1 / 256, 1 / 128, 1 / 64, 1 / 32, 1 / 16, 1 / 8, pi / 6, 49 * pi / 170, pi / 2]"
  by (simp add: PMREMGenerator_def constructor_loop_step constructor_loop_stop lod_consts
      lod_sigma_roughness_def)

lemma roughness_PMREMGenerator:
  "roughness PMREMGenerator =
    [(1 + sqrt (1 + 4 * pi * 256)) / (2 * pi * 256),
     (1 + sqrt (1 + 4 * pi * 128)) / (2 * pi * 128),
     (1 + sqrt (1 + 4 * pi * 64)) / (2 * pi * 64),
     (1 + sqrt (1 + 4 * pi * 32)) / (2 * pi * 32),
     (1 + sqrt (1 + 4 * pi * 16)) / (2 * pi * 16),
     (1 + sqrt (1 + 4 * pi * 8)) / (2 * pi * 8),
     1 / 2, 7 / 10, 1]"
  by (simp add: PMREMGenerator_def constructor_loop_step constructor_loop_stop lod_consts
      lod_sigma_roughness_def)

lemma lodPlanes_PMREMGenerator:
  "lodPlanes PMREMGenerator =
    [merged_planes 0 256, merged_planes 1 128, merged_planes 2 64, merged_planes 3 32,
     merged_planes 4 16, merged_planes 5 8, merged_planes 6 8, merged_planes 7 8,
     merged_planes 8 8]"
  by (simp add: PMREMGenerator_def constructor_loop_step constructor_loop_stop lod_consts)

lemma int_range_cases:
  fixes i :: int
  assumes "0 \<le> i" "i \<le> 8"
  shows "i = 0 \<or> i = 1 \<or> i = 2 \<or> i = 3 \<or> i = 4 \<or> i = 5 \<or> i = 6 \<or> i = 7 \<or> i = 8"
  using assms by presburger

lemma length_tables:
  "length (lodSize PMREMGenerator) = nat TOTAL_LODS"
  "length (sigma PMREMGenerator) = nat TOTAL_LODS"
  "length (roughness PMREMGenerator) = nat TOTAL_LODS"
  "length (lodPlanes PMREMGenerator) = nat TOTAL_LODS"
  by (simp_all add: lodSize_PMREMGenerator sigma_PMREMGenerator roughness_PMREMGenerator
      lodPlanes_PMREMGenerator TOTAL_LODS_eq)

text \<open>
  C1: for every LOD index \<open>i\<close> from 0 to \<open>LOD_MAX - LOD_MIN\<close> the recorded resolution is
  \<open>2 ^ (LOD_MAX - i)\<close>, and for every later index up to \<open>TOTAL_LODS - 1\<close> it is
  \<open>2 ^ LOD_MIN\<close>; so each step up to \<open>LOD_MAX - LOD_MIN\<close> halves the resolution and each
  later step keeps it.
\<close>

theorem lodSize_resolution:
  assumes "0 \<le> i" "i \<le> TOTAL_LODS - 1"
  shows "js_index (lodSize PMREMGenerator) i =
           Some (if i \<le> LOD_MAX - LOD_MIN then 2 ^ nat (LOD_MAX - i) else 2 ^ nat LOD_MIN)
       \<and> (i < LOD_MAX - LOD_MIN \<longrightarrow>
            2 * lodSize PMREMGenerator ! nat (i + 1) = lodSize PMREMGenerator ! nat i)
       \<and> (LOD_MAX - LOD_MIN \<le> i \<and> i < TOTAL_LODS - 1 \<longrightarrow>
            lodSize PMREMGenerator ! nat (i + 1) = lodSize PMREMGenerator ! nat i)"
proof -
  from assms have "0 \<le> i" "i \<le> 8" by (simp_all add: lod_consts)
  from int_range_cases [OF this] show ?thesis
    by (auto simp add: js_index_def lodSize_PMREMGenerator lod_consts)
qed

theorem lodSize_resolution_witness:
  "(0::int) \<le> 2 \<and> 2 \<le> TOTAL_LODS - 1 \<and> 7 \<le> TOTAL_LODS - 1
   \<and> js_index (lodSize PMREMGenerator) 2 = Some 64
   \<and> js_index (lodSize PMREMGenerator) 7 = Some 8
   \<and> 2 * lodSize PMREMGenerator ! 3 = lodSize PMREMGenerator ! 2
   \<and> lodSize PMREMGenerator ! 8 = lodSize PMREMGenerator ! 7"
  using lodSize_resolution [of 2] lodSize_resolution [of 7]
  by (simp add: lod_consts)

text \<open>
  C2: up to index \<open>LOD_MAX - LOD_MIN\<close> the roughness is
  \<open>(1 + sqrt (1 + 4 pi size)) / (2 pi size)\<close> and sigma is \<open>1 / size\<close>, with \<open>size\<close> the
  resolution of the LOD; beyond it the roughness is entry \<open>i - (LOD_MAX - LOD_MIN) - 1\<close>
  of \<open>EXTRA_LOD_ROUGHNESS = [0.5, 0.7, 1.0]\<close> and sigma is \<open>pi r r / (1 + r)\<close>.
\<close>

theorem roughness_sigma_formula:
  assumes "0 \<le> i" "i \<le> TOTAL_LODS - 1"
  shows "(let sz = real_of_int (lodSize PMREMGenerator ! nat i);
              r = roughness PMREMGenerator ! nat i;
              s = sigma PMREMGenerator ! nat i
          in if i \<le> LOD_MAX - LOD_MIN
             then r = (1 + sqrt (1 + 4 * pi * sz)) / (2 * pi * sz) \<and> s = 1 / sz
             else r = [5 / 10, 7 / 10, 1] ! nat (i - (LOD_MAX - LOD_MIN) - 1)
                \<and> r = EXTRA_LOD_ROUGHNESS ! nat (i - (LOD_MAX - LOD_MIN) - 1)
                \<and> s = pi * r * r / (1 + r))"
proof -
  from assms have "0 \<le> i" "i \<le> 8" by (simp_all add: lod_consts)
  from int_range_cases [OF this] show ?thesis
    by (auto simp add: lodSize_PMREMGenerator sigma_PMREMGenerator roughness_PMREMGenerator
        lod_consts)
qed

theorem roughness_sigma_formula_witness:
  "(0::int) \<le> 3 \<and> 3 \<le> TOTAL_LODS - 1 \<and> 7 \<le> TOTAL_LODS - 1
   \<and> roughness PMREMGenerator ! 3 = (1 + sqrt (1 + 4 * pi * 32)) / (2 * pi * 32)
   \<and> sigma PMREMGenerator ! 3 = 1 / 32
   \<and> roughness PMREMGenerator ! 7 = 7 / 10
   \<and> sigma PMREMGenerator ! 7 =
       pi * roughness PMREMGenerator ! 7 * roughness PMREMGenerator ! 7 /
       (1 + roughness PMREMGenerator ! 7)"
  using roughness_sigma_formula [of 3] roughness_sigma_formula [of 7]
  by (auto simp add: lod_consts lodSize_PMREMGenerator Let_def)

text \<open>
  C3: sigma does not decrease from one LOD index to the next, over the whole range of
  indices, the step from the last halving level to the first extra level included.
\<close>

theorem sigma_nondecreasing:
  assumes "0 \<le> i" "i + 1 \<le> TOTAL_LODS - 1"
  shows "sigma PMREMGenerator ! nat i \<le> sigma PMREMGenerator ! nat (i + 1)"
proof -
  from assms have "0 \<le> i" "i \<le> 8" "i \<noteq> 8" by (simp_all add: lod_consts)
  with int_range_cases [of i] pi_ge_two show ?thesis
    by (auto simp add: sigma_PMREMGenerator)
qed

theorem sigma_nondecreasing_witness:
  "(0::int) \<le> 5 \<and> 5 + 1 \<le> TOTAL_LODS - 1
   \<and> sigma PMREMGenerator ! 5 \<le> sigma PMREMGenerator ! 6
   \<and> sigma PMREMGenerator ! 5 = 1 / 8 \<and> sigma PMREMGenerator ! 6 = pi / 6"
  using sigma_nondecreasing [of 5]
  by (simp add: lod_consts sigma_PMREMGenerator)

lemma lod_planes_positions:
  "map position (lod_planes i sizeLod) =
     (let y = (if i > 2 then 1 else 0)
      in [Some \<lparr>array = [0, y, 1, y, 1, y + 1, 0, y, 1, y + 1, 0, y + 1], itemSize = 2\<rparr>,
          Some \<lparr>array = [1, y, 2, y, 2, y + 1, 1, y, 2, y + 1, 1, y + 1], itemSize = 2\<rparr>,
          Some \<lparr>array = [2, y, 3, y, 3, y + 1, 2, y, 3, y + 1, 2, y + 1], itemSize = 2\<rparr>,
          Some \<lparr>array = [0, y, 1, y, 1, y + 1, 0, y, 1, y + 1, 0, y + 1], itemSize = 2\<rparr>,
          Some \<lparr>array = [1, y, 2, y, 2, y + 1, 1, y, 2, y + 1, 1, y + 1], itemSize = 2\<rparr>,
          Some \<lparr>array = [2, y, 3, y, 3, y + 1, 2, y, 3, y + 1, 2, y + 1], itemSize = 2\<rparr>])"
  by (simp add: lod_planes_def face_plane_def upto_rec1 Let_def)

lemma lodPlanes_nth:
  assumes "0 \<le> i" "i \<le> 8"
  shows "lodPlanes PMREMGenerator ! nat i = merged_planes i (lodSize PMREMGenerator ! nat i)"
  using int_range_cases [OF assms]
  by (auto simp add: lodPlanes_PMREMGenerator lodSize_PMREMGenerator)

text \<open>
  What the constructor stores: \<open>merge\<close> copies only into attributes that \<open>planes\<close>
  already has, and \<open>planes\<close> starts without any, so every geometry in \<open>lodPlanes\<close> is
  left without attributes. The quads are the arguments of the calls of \<open>merge\<close>.
\<close>

lemma merge_new_BufferGeometry: "merge new_BufferGeometry plane offset = new_BufferGeometry"
  by (simp add: merge_def merge_attribute_def new_BufferGeometry_def)

lemma merge_planes_new_BufferGeometry:
  "merge_planes ps offset new_BufferGeometry = new_BufferGeometry"
  by (induction ps arbitrary: offset) (simp_all add: merge_new_BufferGeometry)

lemma lodPlanes_stored: "lodPlanes PMREMGenerator = replicate 9 new_BufferGeometry"
  by (simp add: lodPlanes_PMREMGenerator merged_planes_def merge_planes_new_BufferGeometry
      numeral_eq_Suc)

text \<open>
  C9: the row of a quad depends on the LOD index alone (row 1 exactly when \<open>i > 2\<close>), so
  among the six quads that the constructor builds for a LOD and passes to \<open>merge\<close>, the
  quads of face \<open>f\<close> and face \<open>f + 3\<close> have the same vertex positions (the unit cell at
  column \<open>f\<close> of that row), and the six quads occupy three distinct cells.
\<close>

theorem face_quads_coincide:
  assumes "0 \<le> i" "i \<le> TOTAL_LODS - 1" "0 \<le> f" "f \<le> 2"
  shows "(let quads = lod_planes i (lodSize PMREMGenerator ! nat i)
          in lodPlanes PMREMGenerator ! nat i = merge_planes quads 0 new_BufferGeometry
           \<and> length quads = 6
           \<and> position (quads ! nat (f + 3)) = position (quads ! nat f)
           \<and> position (quads ! nat f) =
               (let x = real_of_int f; y = (if i > 2 then 1 else 0)
                in Some \<lparr>array = [x, y, x + 1, y, x + 1, y + 1, x, y, x + 1, y + 1, x, y + 1],
                         itemSize = 2\<rparr>)
           \<and> card (set (map position quads)) = 3)"
proof -
  from assms have i: "0 \<le> i" "i \<le> 8" by (simp_all add: lod_consts)
  have len: "length (lod_planes i (lodSize PMREMGenerator ! nat i)) = 6"
    using arg_cong [OF lod_planes_positions [of i "lodSize PMREMGenerator ! nat i"], of length]
    by (simp add: Let_def)
  have f: "f = 0 \<or> f = 1 \<or> f = 2" using assms(3,4) by presburger
  have pos: "\<And>k. k < 6 \<Longrightarrow> position (lod_planes i (lodSize PMREMGenerator ! nat i) ! k) =
      map position (lod_planes i (lodSize PMREMGenerator ! nat i)) ! k"
    using len by simp
  have 1: "position (lod_planes i (lodSize PMREMGenerator ! nat i) ! nat (f + 3)) =
           position (lod_planes i (lodSize PMREMGenerator ! nat i) ! nat f)"
    using f by (auto simp add: pos lod_planes_positions Let_def)
  have 2: "position (lod_planes i (lodSize PMREMGenerator ! nat i) ! nat f) =
        (let x = real_of_int f; y = (if i > 2 then 1 else 0)
         in Some \<lparr>array = [x, y, x + 1, y, x + 1, y + 1, x, y, x + 1, y + 1, x, y + 1],
                  itemSize = 2\<rparr>)"
    using f by (auto simp add: pos lod_planes_positions Let_def)
  have 3: "card (set (map position (lod_planes i (lodSize PMREMGenerator ! nat i)))) = 3"
    by (simp add: lod_planes_positions Let_def card_insert_if)
  have 4: "lodPlanes PMREMGenerator ! nat i =
      merge_planes (lod_planes i (lodSize PMREMGenerator ! nat i)) 0 new_BufferGeometry"
    by (simp add: lodPlanes_nth [OF i] merged_planes_def)
  show ?thesis
    unfolding Let_def using 1 2 3 4 len by (simp add: Let_def)
qed

theorem face_quads_coincide_witness:
  "(0::int) \<le> 4 \<and> 4 \<le> TOTAL_LODS - 1 \<and> (0::int) \<le> 1 \<and> (1::int) \<le> 2
   \<and> lodSize PMREMGenerator ! 4 = 16
   \<and> length (lod_planes 4 16) = 6
   \<and> position (lod_planes 4 16 ! 4) = position (lod_planes 4 16 ! 1)
   \<and> position (lod_planes 4 16 ! 1) =
       Some \<lparr>array = [1, 1, 2, 1, 2, 2, 1, 1, 2, 2, 1, 2], itemSize = 2\<rparr>
   \<and> card (set (map position (lod_planes 4 16))) = 3"
  using face_quads_coincide [of 4 1]
  by (simp add: lod_consts Let_def lodSize_PMREMGenerator)

section \<open>The engine's calls\<close>

lemma gaussianBlur_defined:
  assumes "js_index (lodSize g) lodIn = Some inputSize" "js_index (lodSize g) lodOut = Some outputSize"
  shows "\<exists>st'. gaussianBlur g enc lodIn lodOut sd st = Some st'"
  using assms by (simp add: gaussianBlur_def Let_def)

lemma gaussianBlur_effect:
  assumes "gaussianBlur g enc lodIn lodOut sd st = Some st'"
  shows "draws st' = draws st @ blur_pass_draws g enc lodIn lodOut sd"
    and "console st' = console st @ blur_pass_console g enc lodIn lodOut sd"
    and "blurCalls st' = blurCalls st @ [(lodIn, lodOut, sd)]"
    and "pingPongDisposed st' = pingPongDisposed st"
  using assms
  by (auto simp add: gaussianBlur_def blur_pass_draws_def blur_pass_console_def idle_engine_def
      Let_def render_def split: option.splits if_splits)

lemma blur_pass_draws_fields:
  assumes "js_index (lodSize g) lodIn = Some inputSize" "js_index (lodSize g) lodOut = Some outputSize"
  shows "map drawViewport (blur_pass_draws g enc lodIn lodOut sd) =
           [blur_viewport lodOut outputSize, blur_viewport lodOut outputSize]"
    and "map drawLod (blur_pass_draws g enc lodIn lodOut sd) = [lodOut, lodOut]"
    and "map drawTarget (blur_pass_draws g enc lodIn lodOut sd) = [Some PingPong, Some CubeUV]"
    and "map (samples \<circ> drawUniforms) (blur_pass_draws g enc lodIn lodOut sd) =
           [blur_sample_count sd inputSize, blur_sample_count sd inputSize]"
    and "map (weights \<circ> drawUniforms) (blur_pass_draws g enc lodIn lodOut sd) =
           [Some (blur_weights (blur_sample_count sd inputSize)),
            Some (blur_weights (blur_sample_count sd inputSize))]"
    and "map (copyEquirectangular \<circ> drawUniforms) (blur_pass_draws g enc lodIn lodOut sd) =
           [False, False]"
    and "map (mipInt \<circ> drawUniforms) (blur_pass_draws g enc lodIn lodOut sd) = [lodIn, lodOut]"
    and "map (latitudinal \<circ> drawUniforms) (blur_pass_draws g enc lodIn lodOut sd) = [False, True]"
  using assms
  by (simp_all add: gaussianBlur_def blur_pass_draws_def idle_engine_def Let_def render_def)

lemma blur_pass_console_eq:
  assumes "js_index (lodSize g) lodIn = Some inputSize" "js_index (lodSize g) lodOut = Some outputSize"
  shows "blur_pass_console g enc lodIn lodOut sd =
           (if blur_sample_count sd inputSize > MAX_SAMPLES
            then [(sd, blur_sample_count sd inputSize, MAX_SAMPLES)] else [])"
  using assms
  by (simp add: gaussianBlur_def blur_pass_console_def idle_engine_def Let_def render_def)

declare applyPMREM_loop.simps [simp del]

lemma applyPMREM_loop_step:
  "i < TOTAL_LODS \<Longrightarrow>
   applyPMREM_loop g enc i st =
     (case gaussianBlur g enc (i - 1) i (blur_sigma g i) st of
        None \<Rightarrow> None
      | Some st' \<Rightarrow> applyPMREM_loop g enc (i + 1) st')"
  by (subst applyPMREM_loop.simps) simp

lemma applyPMREM_loop_stop: "\<not> i < TOTAL_LODS \<Longrightarrow> applyPMREM_loop g enc i st = Some st"
  by (subst applyPMREM_loop.simps) simp

lemma applyPMREM_loop_result:
  assumes "length (lodSize g) = nat TOTAL_LODS" "1 \<le> i"
  shows "\<exists>st'. applyPMREM_loop g enc i st = Some st'
    \<and> blurCalls st' = blurCalls st @ map (\<lambda>j. (j - 1, j, blur_sigma g j)) [i..TOTAL_LODS - 1]
    \<and> draws st' = draws st @
        concat (map (\<lambda>j. blur_pass_draws g enc (j - 1) j (blur_sigma g j)) [i..TOTAL_LODS - 1])
    \<and> console st' = console st @
        concat (map (\<lambda>j. blur_pass_console g enc (j - 1) j (blur_sigma g j)) [i..TOTAL_LODS - 1])
    \<and> pingPongDisposed st' = pingPongDisposed st"
  using assms
proof (induction g enc i st rule: applyPMREM_loop.induct)
  case (1 g enc i st)
  show ?case
  proof (cases "i < TOTAL_LODS")
    case False
    then show ?thesis by (simp add: applyPMREM_loop_stop)
  next
    case True
    with 1(2,3) have "js_index (lodSize g) (i - 1) = Some (lodSize g ! nat (i - 1))"
      and "js_index (lodSize g) i = Some (lodSize g ! nat i)"
      by (simp_all add: js_index_def)
    from gaussianBlur_defined [OF this] obtain st1
      where st1: "gaussianBlur g enc (i - 1) i (blur_sigma g i) st = Some st1" by blast
    from 1(1) [OF True st1 1(2)] 1(3) obtain st'
      where st': "applyPMREM_loop g enc (i + 1) st1 = Some st'"
        "blurCalls st' = blurCalls st1 @ map (\<lambda>j. (j - 1, j, blur_sigma g j)) [i + 1..TOTAL_LODS - 1]"
        "draws st' = draws st1 @
          concat (map (\<lambda>j. blur_pass_draws g enc (j - 1) j (blur_sigma g j)) [i + 1..TOTAL_LODS - 1])"
        "console st' = console st1 @
          concat (map (\<lambda>j. blur_pass_console g enc (j - 1) j (blur_sigma g j)) [i + 1..TOTAL_LODS - 1])"
        "pingPongDisposed st' = pingPongDisposed st1"
      by auto
    have rec: "[i..TOTAL_LODS - 1] = i # [i + 1..TOTAL_LODS - 1]"
      using True by (simp add: upto_rec1)
    show ?thesis
      using st' gaussianBlur_effect [OF st1] True
      by (simp add: applyPMREM_loop_step st1 rec)
  qed
qed

lemma js_index_lodSize:
  assumes "0 \<le> j" "j \<le> 8"
  shows "js_index (lodSize PMREMGenerator) j = Some (lodSize PMREMGenerator ! nat j)"
  using assms by (simp add: js_index_def lodSize_PMREMGenerator)

lemma equirectangularToCubeUV_effect:
  "draws (snd (equirectangularToCubeUV equirectangular st)) =
     draws st @
       [\<lparr>drawTarget = Some CubeUV, drawViewport = (0, 0, 3 * SIZE_MAX, 2 * SIZE_MAX), drawLod = 0,
         drawUniforms = (blurUniforms st)
           \<lparr>copyEquirectangular := True, envMap := Some EquirectangularTexture\<rparr>\<rparr>]"
  "console (snd (equirectangularToCubeUV equirectangular st)) = console st"
  "blurCalls (snd (equirectangularToCubeUV equirectangular st)) = blurCalls st"
  "target_params.encoding (options (fst (equirectangularToCubeUV equirectangular st))) =
     texture.encoding equirectangular"
  by (simp_all add: equirectangularToCubeUV_def Let_def render_def)

lemma equirectangularToPMREM_result:
  "\<exists>st'. equirectangularToPMREM PMREMGenerator equirectangular st =
           Some (fst (equirectangularToCubeUV equirectangular st), st')
    \<and> blurCalls st' =
        blurCalls st @ map (\<lambda>j. (j - 1, j, blur_sigma PMREMGenerator j)) [1..TOTAL_LODS - 1]
    \<and> draws st' = draws (snd (equirectangularToCubeUV equirectangular st)) @
        concat (map (\<lambda>j. blur_pass_draws PMREMGenerator (texture.encoding equirectangular)
                        (j - 1) j (blur_sigma PMREMGenerator j)) [1..TOTAL_LODS - 1])
    \<and> console st' = console st @
        concat (map (\<lambda>j. blur_pass_console PMREMGenerator (texture.encoding equirectangular)
                        (j - 1) j (blur_sigma PMREMGenerator j)) [1..TOTAL_LODS - 1])
    \<and> pingPongDisposed st'"
proof -
  obtain rt st1 where eq: "equirectangularToCubeUV equirectangular st = (rt, st1)"
    by (cases "equirectangularToCubeUV equirectangular st")
  from applyPMREM_loop_result [OF length_tables(1), of 1 "texture.encoding equirectangular" st1]
  obtain st2 where st2:
    "applyPMREM_loop PMREMGenerator (texture.encoding equirectangular) 1 st1 = Some st2"
    "blurCalls st2 =
       blurCalls st1 @ map (\<lambda>j. (j - 1, j, blur_sigma PMREMGenerator j)) [1..TOTAL_LODS - 1]"
    "draws st2 = draws st1 @
       concat (map (\<lambda>j. blur_pass_draws PMREMGenerator (texture.encoding equirectangular)
                       (j - 1) j (blur_sigma PMREMGenerator j)) [1..TOTAL_LODS - 1])"
    "console st2 = console st1 @
       concat (map (\<lambda>j. blur_pass_console PMREMGenerator (texture.encoding equirectangular)
                       (j - 1) j (blur_sigma PMREMGenerator j)) [1..TOTAL_LODS - 1])"
    by auto
  have enc: "target_params.encoding (options rt) = texture.encoding equirectangular"
    using equirectangularToCubeUV_effect(4) [of equirectangular st] by (simp add: eq)
  have "equirectangularToPMREM PMREMGenerator equirectangular st =
          Some (rt, st2\<lparr>pingPongDisposed := True\<rparr>)"
    by (simp add: equirectangularToPMREM_def applyPMREM_def eq enc st2(1))
  then show ?thesis
    using st2(2-4) equirectangularToCubeUV_effect(2,3) [of equirectangular st]
    by (simp add: eq)
qed

lemma upto_1_8: "[1..TOTAL_LODS - 1] = [1, 2, 3, 4, 5, 6, 7, 8]"
  by (simp add: TOTAL_LODS_eq upto_rec1)

lemma pipeline_blur_draws:
  assumes "0 \<le> lodIn" "lodIn \<le> 8" "0 \<le> lodOut" "lodOut \<le> 8"
  shows "map drawLod (blur_pass_draws PMREMGenerator enc lodIn lodOut sd) = [lodOut, lodOut]"
    and "map (copyEquirectangular \<circ> drawUniforms) (blur_pass_draws PMREMGenerator enc lodIn lodOut sd) =
           [False, False]"
    and "map (samples \<circ> drawUniforms) (blur_pass_draws PMREMGenerator enc lodIn lodOut sd) =
           [blur_sample_count sd (lodSize PMREMGenerator ! nat lodIn),
            blur_sample_count sd (lodSize PMREMGenerator ! nat lodIn)]"
    and "blur_pass_console PMREMGenerator enc lodIn lodOut sd =
           (if blur_sample_count sd (lodSize PMREMGenerator ! nat lodIn) > MAX_SAMPLES
            then [(sd, blur_sample_count sd (lodSize PMREMGenerator ! nat lodIn), MAX_SAMPLES)]
            else [])"
proof -
  have a: "js_index (lodSize PMREMGenerator) lodIn = Some (lodSize PMREMGenerator ! nat lodIn)"
    and b: "js_index (lodSize PMREMGenerator) lodOut = Some (lodSize PMREMGenerator ! nat lodOut)"
    using assms by (simp_all add: js_index_lodSize)
  show "map drawLod (blur_pass_draws PMREMGenerator enc lodIn lodOut sd) = [lodOut, lodOut]"
    by (rule blur_pass_draws_fields(2) [OF a b])
  show "map (copyEquirectangular \<circ> drawUniforms) (blur_pass_draws PMREMGenerator enc lodIn lodOut sd) =
           [False, False]"
    by (rule blur_pass_draws_fields(6) [OF a b])
  show "map (samples \<circ> drawUniforms) (blur_pass_draws PMREMGenerator enc lodIn lodOut sd) =
           [blur_sample_count sd (lodSize PMREMGenerator ! nat lodIn),
            blur_sample_count sd (lodSize PMREMGenerator ! nat lodIn)]"
    by (rule blur_pass_draws_fields(4) [OF a b])
  show "blur_pass_console PMREMGenerator enc lodIn lodOut sd =
           (if blur_sample_count sd (lodSize PMREMGenerator ! nat lodIn) > MAX_SAMPLES
            then [(sd, blur_sample_count sd (lodSize PMREMGenerator ! nat lodIn), MAX_SAMPLES)]
            else [])"
    by (rule blur_pass_console_eq [OF a b])
qed

text \<open>
  C5: a blur into LOD \<open>lodOut\<close> of resolution \<open>outputSize\<close> renders both of its passes
  with the viewport whose offset is \<open>x = 3 max(0, SIZE_MAX - 2 outputSize)\<close> and
  \<open>y = (0 if lodOut = 0, else SIZE_MAX) + outputSize (lodOut - (LOD_MAX - LOD_MIN)\<close> if
  \<open>lodOut > LOD_MAX - LOD_MIN\<close>, else 0\<open>)\<close>, and whose extent is \<open>3 outputSize\<close> by
  \<open>2 outputSize\<close>.
\<close>

theorem blur_viewport_offset:
  assumes "js_index (lodSize g) lodIn = Some inputSize"
    and "js_index (lodSize g) lodOut = Some outputSize"
  shows "\<exists>st'. gaussianBlur g enc lodIn lodOut sd st = Some st'
    \<and> viewport st' =
        (3 * max 0 (SIZE_MAX - 2 * outputSize),
         (if lodOut = 0 then 0 else SIZE_MAX) +
           outputSize * (if lodOut > LOD_MAX - LOD_MIN then lodOut - (LOD_MAX - LOD_MIN) else 0),
         3 * outputSize, 2 * outputSize)
    \<and> map drawViewport (drop (length (draws st)) (draws st')) =
        [viewport st', viewport st']"
proof -
  from gaussianBlur_defined [OF assms] obtain st'
    where st': "gaussianBlur g enc lodIn lodOut sd st = Some st'" by blast
  have v: "viewport st' = blur_viewport lodOut outputSize"
    using st' assms by (auto simp add: gaussianBlur_def Let_def render_def)
  have "map drawViewport (drop (length (draws st)) (draws st')) = [viewport st', viewport st']"
    by (simp add: gaussianBlur_effect(1) [OF st'] blur_pass_draws_fields(1) [OF assms] v)
  then show ?thesis
    using st' v by (simp add: blur_viewport_def Let_def)
qed

theorem blur_viewport_offset_witness:
  "js_index (lodSize PMREMGenerator) 0 = Some 256
   \<and> js_index (lodSize PMREMGenerator) 1 = Some 128
   \<and> js_index (lodSize PMREMGenerator) 4 = Some 16
   \<and> js_index (lodSize PMREMGenerator) 5 = Some 8
   \<and> js_index (lodSize PMREMGenerator) 6 = Some 8
   \<and> (\<exists>st'. gaussianBlur PMREMGenerator LinearEncoding 0 1 1 idle_engine = Some st'
        \<and> viewport st' = (0, 256, 384, 256))
   \<and> (\<exists>st'. gaussianBlur PMREMGenerator LinearEncoding 4 5 1 idle_engine = Some st'
        \<and> viewport st' = (720, 256, 24, 16))
   \<and> (\<exists>st'. gaussianBlur PMREMGenerator LinearEncoding 5 6 1 idle_engine = Some st'
        \<and> viewport st' = (720, 264, 24, 16))"
proof -
  have a: "js_index (lodSize PMREMGenerator) 0 = Some 256"
    and b: "js_index (lodSize PMREMGenerator) 1 = Some 128"
    and c: "js_index (lodSize PMREMGenerator) 4 = Some 16"
    and d: "js_index (lodSize PMREMGenerator) 5 = Some 8"
    and e: "js_index (lodSize PMREMGenerator) 6 = Some 8"
    by (simp_all add: js_index_def lodSize_PMREMGenerator)
  show ?thesis
    using blur_viewport_offset [OF a b, of LinearEncoding 1 idle_engine]
      blur_viewport_offset [OF c d, of LinearEncoding 1 idle_engine]
      blur_viewport_offset [OF d e, of LinearEncoding 1 idle_engine]
    by (auto simp add: a b c d e SIZE_MAX_def LOD_MAX_def LOD_MIN_def)
qed

text \<open>
  C8: the render target that \<open>equirectangularToPMREM\<close> returns is \<open>3 SIZE_MAX\<close> by
  \<open>3 SIZE_MAX\<close> texels; its parameters take format, type, anisotropy and encoding from
  the input texture, set both filters to nearest and switch mipmap generation off.
\<close>

theorem atlas_render_target:
  "\<exists>st'. equirectangularToPMREM PMREMGenerator equirectangular st =
     Some (\<lparr>width = 3 * SIZE_MAX, height = 3 * SIZE_MAX,
            options = \<lparr>format = texture.format equirectangular,
                       magFilter = NearestFilter,
                       minFilter = NearestFilter,
                       type = texture.type equirectangular,
                       generateMipmaps = False,
                       anisotropy = texture.anisotropy equirectangular,
                       encoding = texture.encoding equirectangular\<rparr>\<rparr>, st')
   \<and> 3 * SIZE_MAX = 768"
proof -
  from equirectangularToPMREM_result [of equirectangular st] obtain st' where
    "equirectangularToPMREM PMREMGenerator equirectangular st =
       Some (fst (equirectangularToCubeUV equirectangular st), st')"
    by blast
  then show ?thesis
    by (simp add: equirectangularToCubeUV_def Let_def SIZE_MAX_def LOD_MAX_def)
qed

section \<open>Bounds on pi and the sample counts of the pipeline\<close>

lemma arctan_enclosure:
  fixes x :: real
  assumes "0 < x" "x \<le> 1"
  shows "(\<Sum>i<2 * n. (- 1) ^ i * (1 / real (i * 2 + 1) * x ^ (i * 2 + 1))) \<le> arctan x"
    and "arctan x \<le> (\<Sum>i<2 * n + 1. (- 1) ^ i * (1 / real (i * 2 + 1) * x ^ (i * 2 + 1)))"
proof -
  have ax: "\<bar>x\<bar> \<le> 1" using assms by simp
  have pos: "0 < 1 / real (0 * 2 + 1) * x ^ (0 * 2 + 1)" using assms by simp
  have "(\<Sum>i. (- 1) ^ i * (1 / real (i * 2 + 1) * x ^ (i * 2 + 1)))
      \<in> {(\<Sum>i<2 * n. (- 1) ^ i * (1 / real (i * 2 + 1) * x ^ (i * 2 + 1))) ..
         (\<Sum>i<2 * n + 1. (- 1) ^ i * (1 / real (i * 2 + 1) * x ^ (i * 2 + 1)))}"
    using summable_Leibniz(2) [OF zeroseq_arctan_series [OF ax] monoseq_arctan_series [OF ax]] pos
    by blast
  then show "(\<Sum>i<2 * n. (- 1) ^ i * (1 / real (i * 2 + 1) * x ^ (i * 2 + 1))) \<le> arctan x"
    and "arctan x \<le> (\<Sum>i<2 * n + 1. (- 1) ^ i * (1 / real (i * 2 + 1) * x ^ (i * 2 + 1)))"
    using arctan_series [OF ax] by simp_all
qed

lemma arctan_5_bounds:
  "1973955598 / 10 ^ 10 \<le> arctan (1 / 5)" "arctan (1 / 5) \<le> 1973955599 / 10 ^ 10"
proof -
  show "1973955598 / 10 ^ 10 \<le> arctan (1 / 5)"
    by (rule order_trans [OF _ arctan_enclosure(1) [of "1 / 5" 4]]) (simp_all add: numeral_eq_Suc)
  show "arctan (1 / 5) \<le> 1973955599 / 10 ^ 10"
    by (rule order_trans [OF arctan_enclosure(2) [of "1 / 5" 4]]) (simp_all add: numeral_eq_Suc)
qed

lemma arctan_239_bounds:
  "41840760 / 10 ^ 10 \<le> arctan (1 / 239)" "arctan (1 / 239) \<le> 41840761 / 10 ^ 10"
proof -
  show "41840760 / 10 ^ 10 \<le> arctan (1 / 239)"
    by (rule order_trans [OF _ arctan_enclosure(1) [of "1 / 239" 1]]) (simp_all add: numeral_eq_Suc)
  show "arctan (1 / 239) \<le> 41840761 / 10 ^ 10"
    by (rule order_trans [OF arctan_enclosure(2) [of "1 / 239" 1]]) (simp_all add: numeral_eq_Suc)
qed

lemma pi_bounds: "314159265 / 10 ^ 8 < pi" "pi < 314159266 / 10 ^ 8"
  using machin arctan_5_bounds arctan_239_bounds by simp_all

lemma pi_square_bounds: "9 < pi * pi" "pi * pi < 10"
proof -
  have "3 * 3 < pi * pi"
    using pi_bounds(1) by (intro mult_strict_mono) simp_all
  then show "9 < pi * pi" by simp
  have "pi * pi < (315 / 100) * (315 / 100)"
    using pi_bounds(2) by (intro mult_strict_mono) simp_all
  then show "pi * pi < 10" by simp
qed

lemma arctan_5_fine:
  "19739555984988075824 / 10 ^ 20 \<le> arctan (1 / 5)"
  "arctan (1 / 5) \<le> 19739555984988075838 / 10 ^ 20"
proof -
  show "19739555984988075824 / 10 ^ 20 \<le> arctan (1 / 5)"
    by (rule order_trans [OF _ arctan_enclosure(1) [of "1 / 5" 6]]) (simp_all add: numeral_eq_Suc)
  show "arctan (1 / 5) \<le> 19739555984988075838 / 10 ^ 20"
    by (rule order_trans [OF arctan_enclosure(2) [of "1 / 5" 6]]) (simp_all add: numeral_eq_Suc)
qed

lemma arctan_239_fine:
  "41840760020747238644 / 10 ^ 22 \<le> arctan (1 / 239)"
  "arctan (1 / 239) \<le> 41840760020747238646 / 10 ^ 22"
proof -
  show "41840760020747238644 / 10 ^ 22 \<le> arctan (1 / 239)"
    by (rule order_trans [OF _ arctan_enclosure(1) [of "1 / 239" 2]]) (simp_all add: numeral_eq_Suc)
  show "arctan (1 / 239) \<le> 41840760020747238646 / 10 ^ 22"
    by (rule order_trans [OF arctan_enclosure(2) [of "1 / 239" 2]]) (simp_all add: numeral_eq_Suc)
qed

lemma pi_fine: "314159265358979323 / 10 ^ 17 < pi" "pi < 314159265358979324 / 10 ^ 17"
  using machin arctan_5_fine arctan_239_fine by simp_all

text \<open>\<open>Math.PI\<close> lies below pi, by less than the relative distance \<open>1 / 2 ^ 54\<close>.\<close>

lemma Math_PI_bounds: "Math_PI \<le> pi" "pi \<le> Math_PI * (1 + 1 / 2 ^ 54)"
  using pi_fine by (simp_all add: Math_PI_def)

lemma blur_sample_count_eq:
  assumes "0 \<le> D" "0 < sz"
    and lo: "(of_int (k - 1) * pi)\<^sup>2 < 36 * (of_int sz)\<^sup>2 * D"
    and hi: "36 * (of_int sz)\<^sup>2 * D \<le> (of_int k * pi)\<^sup>2"
    and "1 \<le> k"
  shows "blur_sample_count (sqrt D) sz = k"
proof -
  have r: "sqrt (36 * (of_int sz)\<^sup>2 * D) = 6 * of_int sz * sqrt D"
    using assms(2) by (simp add: real_sqrt_mult)
  have "of_int (k - 1) * pi < sqrt (36 * (of_int sz)\<^sup>2 * D)"
    using lo by (rule real_less_rsqrt)
  then have "of_int (k - 1) * pi < 6 * of_int sz * sqrt D"
    by (simp only: r)
  then have 1: "of_int k - 1 < 3 * sqrt D * of_int sz * 2 / pi"
    by (simp add: pos_less_divide_eq mult_ac)
  have "sqrt (36 * (of_int sz)\<^sup>2 * D) \<le> of_int k * pi"
    using hi assms(5) by (intro real_le_lsqrt) simp_all
  then have "6 * of_int sz * sqrt D \<le> of_int k * pi"
    by (simp only: r)
  then have 2: "3 * sqrt D * of_int sz * 2 / pi \<le> of_int k"
    by (simp add: pos_divide_le_eq mult_ac)
  show ?thesis
    unfolding blur_sample_count_def using 1 2 by (intro ceiling_unique) simp_all
qed

lemma pipeline_sample_counts:
  "blur_sample_count (blur_sigma PMREMGenerator 1) 256 = 4"
  "blur_sample_count (blur_sigma PMREMGenerator 2) 128 = 4"
  "blur_sample_count (blur_sigma PMREMGenerator 3) 64 = 4"
  "blur_sample_count (blur_sigma PMREMGenerator 4) 32 = 4"
  "blur_sample_count (blur_sigma PMREMGenerator 5) 16 = 4"
  "blur_sample_count (blur_sigma PMREMGenerator 6) 8 = 8"
  "blur_sample_count (blur_sigma PMREMGenerator 7) 8 = 12"
  "blur_sample_count (blur_sigma PMREMGenerator 8) 8 = 20"
  unfolding blur_sigma_def
  using pi_square_bounds
  by (intro blur_sample_count_eq; simp add: sigma_PMREMGenerator power2_eq_square)+

lemma pipeline_radicands:
  "list_all (\<lambda>i. 0 < sigma PMREMGenerator ! nat i * sigma PMREMGenerator ! nat i -
       sigma PMREMGenerator ! nat (i - 1) * sigma PMREMGenerator ! nat (i - 1)) [1..TOTAL_LODS - 1]"
  using pi_square_bounds by (simp add: upto_1_8 sigma_PMREMGenerator)

text \<open>
  C4: the blur loop of \<open>equirectangularToPMREM\<close> runs over the destination LODs 1 to
  \<open>TOTAL_LODS - 1\<close>, blurring LOD \<open>i - 1\<close> into LOD \<open>i\<close> with the standard deviation
  \<open>sqrt (sigma[i]^2 - sigma[i-1]^2)\<close> (a square root of a positive number); LOD 0 is
  drawn once, by the copy of the equirectangular texture, and never by a blur.
\<close>

theorem blur_passes:
  "\<exists>rt st'. equirectangularToPMREM PMREMGenerator equirectangular st = Some (rt, st')
    \<and> blurCalls st' = blurCalls st @
        map (\<lambda>i. (i - 1, i,
               sqrt (sigma PMREMGenerator ! nat i * sigma PMREMGenerator ! nat i -
                     sigma PMREMGenerator ! nat (i - 1) * sigma PMREMGenerator ! nat (i - 1))))
          [1..TOTAL_LODS - 1]
    \<and> list_all (\<lambda>i. 0 < sigma PMREMGenerator ! nat i * sigma PMREMGenerator ! nat i -
          sigma PMREMGenerator ! nat (i - 1) * sigma PMREMGenerator ! nat (i - 1))
        [1..TOTAL_LODS - 1]
    \<and> map drawLod (drop (length (draws st)) (draws st')) =
        0 # concat (map (\<lambda>i. [i, i]) [1..TOTAL_LODS - 1])
    \<and> map (copyEquirectangular \<circ> drawUniforms) (drop (length (draws st)) (draws st')) =
        True # replicate 16 False"
proof -
  from equirectangularToPMREM_result [of equirectangular st] obtain st' where
    r: "equirectangularToPMREM PMREMGenerator equirectangular st =
          Some (fst (equirectangularToCubeUV equirectangular st), st')"
    and c: "blurCalls st' =
        blurCalls st @ map (\<lambda>j. (j - 1, j, blur_sigma PMREMGenerator j)) [1..TOTAL_LODS - 1]"
    and d: "draws st' = draws (snd (equirectangularToCubeUV equirectangular st)) @
        concat (map (\<lambda>j. blur_pass_draws PMREMGenerator (texture.encoding equirectangular)
                        (j - 1) j (blur_sigma PMREMGenerator j)) [1..TOTAL_LODS - 1])"
    by blast
  have lod: "map drawLod (drop (length (draws st)) (draws st')) =
        0 # concat (map (\<lambda>i. [i, i]) [1..TOTAL_LODS - 1])"
    by (simp add: d equirectangularToCubeUV_effect(1) upto_1_8 pipeline_blur_draws(1))
  have cp: "map (copyEquirectangular \<circ> drawUniforms) (drop (length (draws st)) (draws st')) =
        True # replicate 16 False"
    by (simp add: d equirectangularToCubeUV_effect(1) upto_1_8 pipeline_blur_draws(2)
        numeral_eq_Suc)
  show ?thesis
    using r c lod cp pipeline_radicands by (simp add: blur_sigma_def)
qed

text \<open>
  C10: under the fixed constants every one of the \<open>TOTAL_LODS - 1\<close> blurs of
  \<open>equirectangularToPMREM\<close> computes a sample count between 2 and \<open>MAX_SAMPLES\<close> (the
  counts are 4, 4, 4, 4, 4, 8, 12, 20), so \<open>n - 1\<close> is not zero and nothing is written to
  the console.
\<close>

theorem pipeline_samples_in_range:
  "\<exists>rt st'. equirectangularToPMREM PMREMGenerator equirectangular st = Some (rt, st')
    \<and> console st' = console st
    \<and> map (\<lambda>(lodIn, lodOut, sd). blur_sample_count sd (lodSize PMREMGenerator ! nat lodIn))
        (drop (length (blurCalls st)) (blurCalls st')) = [4, 4, 4, 4, 4, 8, 12, 20]
    \<and> map (samples \<circ> drawUniforms) (drop (Suc (length (draws st))) (draws st')) =
        [4, 4, 4, 4, 4, 4, 4, 4, 4, 4, 8, 8, 12, 12, 20, 20]
    \<and> list_all (\<lambda>n. 2 \<le> n \<and> n \<le> MAX_SAMPLES \<and> real_of_int (n - 1) \<noteq> 0)
        [4, 4, 4, 4, 4, 8, 12, 20]"
proof -
  from equirectangularToPMREM_result [of equirectangular st] obtain st' where
    r: "equirectangularToPMREM PMREMGenerator equirectangular st =
          Some (fst (equirectangularToCubeUV equirectangular st), st')"
    and c: "blurCalls st' =
        blurCalls st @ map (\<lambda>j. (j - 1, j, blur_sigma PMREMGenerator j)) [1..TOTAL_LODS - 1]"
    and d: "draws st' = draws (snd (equirectangularToCubeUV equirectangular st)) @
        concat (map (\<lambda>j. blur_pass_draws PMREMGenerator (texture.encoding equirectangular)
                        (j - 1) j (blur_sigma PMREMGenerator j)) [1..TOTAL_LODS - 1])"
    and l: "console st' = console st @
        concat (map (\<lambda>j. blur_pass_console PMREMGenerator (texture.encoding equirectangular)
                        (j - 1) j (blur_sigma PMREMGenerator j)) [1..TOTAL_LODS - 1])"
    by blast
  have 1: "console st' = console st"
    by (simp add: l upto_1_8 pipeline_blur_draws(4) lodSize_PMREMGenerator
        pipeline_sample_counts MAX_SAMPLES_def)
  have 2: "map (\<lambda>(lodIn, lodOut, sd). blur_sample_count sd (lodSize PMREMGenerator ! nat lodIn))
        (drop (length (blurCalls st)) (blurCalls st')) = [4, 4, 4, 4, 4, 8, 12, 20]"
    by (simp add: c upto_1_8 lodSize_PMREMGenerator pipeline_sample_counts)
  have 3: "map (samples \<circ> drawUniforms) (drop (Suc (length (draws st))) (draws st')) =
        [4, 4, 4, 4, 4, 4, 4, 4, 4, 4, 8, 8, 12, 12, 20, 20]"
    by (simp add: d equirectangularToCubeUV_effect(1) upto_1_8 pipeline_blur_draws(3)
        lodSize_PMREMGenerator pipeline_sample_counts)
  show ?thesis
    using r 1 2 3 by (simp add: MAX_SAMPLES_def)
qed

section \<open>The weights of a blur pass\<close>

lemma FX_pos: "0 < FX" by (simp add: FX_def)

lemma fx_up: "x \<le> fx (fx_up x)"
  using FX_pos unfolding fx_def fx_up_def by (simp add: pos_le_divide_eq le_of_int_ceiling)

lemma fx_dn: "fx (fx_dn x) \<le> x"
  using FX_pos unfolding fx_def fx_dn_def by (simp add: pos_divide_le_eq of_int_floor_le)

lemma mul_up_div: "mul_up a b = - ((- (a * b)) div FX)"
  by (simp add: mul_up_def FX_def drop_bit_eq_div)

lemma mul_dn_div: "mul_dn a b = (a * b) div FX"
  by (simp add: mul_dn_def FX_def drop_bit_eq_div)

lemma fx_mul_up: "fx a * fx b \<le> fx (mul_up a b)"
proof -
  have "fx a * fx b = (of_int (a * b) / of_int FX) / of_int FX"
    by (simp add: fx_def)
  also have "of_int (a * b) / of_int FX \<le> (of_int (mul_up a b) :: real)"
    unfolding mul_up_div using ceiling_divide_eq_div [of "a * b" FX] le_of_int_ceiling by metis
  then have "(of_int (a * b) / of_int FX) / of_int FX \<le> fx (mul_up a b)"
    unfolding fx_def using FX_pos by (intro divide_right_mono) auto
  finally show ?thesis .
qed

lemma fx_mul_dn: "fx (mul_dn a b) \<le> fx a * fx b"
proof -
  have "(of_int (mul_dn a b) :: real) \<le> of_int (a * b) / of_int FX"
    unfolding mul_dn_div using floor_divide_of_int_eq [of "a * b" FX] of_int_floor_le by metis
  then have "fx (mul_dn a b) \<le> (of_int (a * b) / of_int FX) / of_int FX"
    unfolding fx_def using FX_pos by (intro divide_right_mono) auto
  also have "\<dots> = fx a * fx b"
    by (simp add: fx_def)
  finally show ?thesis .
qed

lemma mul_up:
  assumes "0 \<le> x" "x \<le> fx a" "0 \<le> y" "y \<le> fx b"
  shows "x * y \<le> fx (mul_up a b)"
proof -
  have "x * y \<le> fx a * fx b" using assms by (intro mult_mono) auto
  then show ?thesis using fx_mul_up [of a b] by linarith
qed

lemma fx_nonneg: "0 \<le> a \<Longrightarrow> 0 \<le> fx a"
  using FX_pos by (simp add: fx_def)

lemma mul_dn:
  assumes "0 \<le> a" "fx a \<le> x" "0 \<le> b" "fx b \<le> y"
  shows "fx (mul_dn a b) \<le> x * y"
proof -
  have "fx a * fx b \<le> x * y"
    using assms fx_nonneg [of a] fx_nonneg [of b] by (intro mult_mono) auto
  then show ?thesis using fx_mul_dn [of a b] by linarith
qed

lemma mul_dn_nonneg: "0 \<le> a \<Longrightarrow> 0 \<le> b \<Longrightarrow> 0 \<le> mul_dn a b"
  using FX_pos unfolding mul_dn_div by (simp add: pos_imp_zdiv_nonneg_iff)

lemma sqr_up: assumes "0 \<le> y" "y \<le> fx a" shows "y * y \<le> fx (sqr_up a)"
  unfolding sqr_up_def using assms by (intro mul_up)

lemma sqr_dn: assumes "0 \<le> a" "fx a \<le> y" shows "fx (sqr_dn a) \<le> y * y"
  unfolding sqr_dn_def using assms by (intro mul_dn)

lemma sqr_dn_nonneg: "0 \<le> sqr_dn a"
  using FX_pos unfolding sqr_dn_def mul_dn_div by (simp add: pos_imp_zdiv_nonneg_iff)

lemma exp_taylor_hi: assumes "0 \<le> s" shows "exp (- s) \<le> exp_taylor_hi s"
proof -
  obtain t where t: "exp (- s) = (\<Sum>m<5. ((- s) ^ m) / fact m) + (exp t / fact 5) * (- s) ^ 5"
    using Maclaurin_exp_le [of "- s" 5] by blast
  have "(- s) ^ 5 \<le> 0" using assms by (simp add: power_minus_odd)
  then have "(exp t / fact 5) * (- s) ^ 5 \<le> 0"
    by (intro mult_nonneg_nonpos) simp_all
  moreover have "(\<Sum>m<5. ((- s) ^ m) / fact m) = exp_taylor_hi s"
    by (simp add: exp_taylor_hi_def numeral_eq_Suc fact_numeral field_simps)
  ultimately show ?thesis using t by linarith
qed

lemma exp_taylor_lo: assumes "0 \<le> s" shows "exp_taylor_lo s \<le> exp (- s)"
proof -
  obtain t where t: "exp (- s) = (\<Sum>m<6. ((- s) ^ m) / fact m) + (exp t / fact 6) * (- s) ^ 6"
    using Maclaurin_exp_le [of "- s" 6] by blast
  have "0 \<le> (- s) ^ 6" by simp
  then have "0 \<le> (exp t / fact 6) * (- s) ^ 6"
    by (intro mult_nonneg_nonneg) simp_all
  moreover have "(\<Sum>m<6. ((- s) ^ m) / fact m) = exp_taylor_lo s"
    by (simp add: exp_taylor_lo_def numeral_eq_Suc fact_numeral field_simps)
  ultimately show ?thesis using t by linarith
qed

lemma exp_neg_16: "exp (- t) = (((exp (- (t / 16)) * exp (- (t / 16))) * (exp (- (t / 16)) * exp (- (t / 16)))) * ((exp (- (t / 16)) * exp (- (t / 16))) * (exp (- (t / 16)) * exp (- (t / 16))))) * (((exp (- (t / 16)) * exp (- (t / 16))) * (exp (- (t / 16)) * exp (- (t / 16)))) * ((exp (- (t / 16)) * exp (- (t / 16))) * (exp (- (t / 16)) * exp (- (t / 16)))))"
  for t :: real
  by (simp flip: exp_add)

lemma exp_hi: assumes "0 \<le> t" shows "exp (- t) \<le> fx (exp_hi t)"
proof -
  let ?e = "exp (- (t / 16))"
  let ?a = "fx_up (exp_taylor_hi (t / 16))"
  have 1: "?e \<le> fx ?a"
    using exp_taylor_hi [of "t / 16"] assms fx_up [of "exp_taylor_hi (t / 16)"] by simp
  have 2: "?e * ?e \<le> fx (sqr_up ?a)"
    by (rule sqr_up [OF _ 1]) simp
  have 3: "(?e * ?e) * (?e * ?e) \<le> fx (sqr_up (sqr_up ?a))"
    by (rule sqr_up [OF _ 2]) simp
  have 4: "((?e * ?e) * (?e * ?e)) * ((?e * ?e) * (?e * ?e)) \<le> fx (sqr_up (sqr_up (sqr_up ?a)))"
    by (rule sqr_up [OF _ 3]) simp
  have 5: "(((?e * ?e) * (?e * ?e)) * ((?e * ?e) * (?e * ?e))) * (((?e * ?e) * (?e * ?e)) * ((?e * ?e) * (?e * ?e))) \<le> fx (exp_hi t)"
    unfolding exp_hi_def by (rule sqr_up [OF _ 4]) simp
  show ?thesis using 5 by (simp only: exp_neg_16 [of t])
qed

lemma exp_lo: assumes "0 \<le> t" shows "fx (exp_lo t) \<le> exp (- t)"
proof -
  let ?e = "exp (- (t / 16))"
  let ?a = "max 0 (fx_dn (exp_taylor_lo (t / 16)))"
  have "fx 0 = 0" by (simp add: fx_def)
  then have 1: "fx ?a \<le> ?e"
    using exp_taylor_lo [of "t / 16"] assms fx_dn [of "exp_taylor_lo (t / 16)"]
    by (cases "0 \<le> fx_dn (exp_taylor_lo (t / 16))") (auto simp: max_def)
  have 2: "fx (sqr_dn ?a) \<le> ?e * ?e"
    by (rule sqr_dn [OF _ 1]) simp
  have 3: "fx (sqr_dn (sqr_dn ?a)) \<le> (?e * ?e) * (?e * ?e)"
    by (rule sqr_dn [OF sqr_dn_nonneg 2])
  have 4: "fx (sqr_dn (sqr_dn (sqr_dn ?a))) \<le> ((?e * ?e) * (?e * ?e)) * ((?e * ?e) * (?e * ?e))"
    by (rule sqr_dn [OF sqr_dn_nonneg 3])
  have 5: "fx (exp_lo t) \<le> (((?e * ?e) * (?e * ?e)) * ((?e * ?e) * (?e * ?e))) * (((?e * ?e) * (?e * ?e)) * ((?e * ?e) * (?e * ?e)))"
    unfolding exp_lo_def by (rule sqr_dn [OF sqr_dn_nonneg 4])
  show ?thesis using 5 by (simp only: exp_neg_16 [of t])
qed

lemma blur_weight_gauss: "blur_weight n i = inverseIntegral n * exp (- gauss_arg n i)"
  by (simp add: blur_weight_def gauss_arg_def Let_def)

lemma gauss_arg_nonneg: "0 \<le> gauss_arg n i"
  by (simp add: gauss_arg_def Let_def)

lemma gauss_arg_0: "gauss_arg n 0 = 0"
  by (simp add: gauss_arg_def)

lemma blur_weight_0: "blur_weight n 0 = inverseIntegral n"
  by (simp add: blur_weight_def)

lemma inverseIntegral_pos: "2 \<le> n \<Longrightarrow> 0 < inverseIntegral n"
  by (simp add: inverseIntegral_def)

lemma length_blur_weights: "length (blur_weights n) = nat MAX_SAMPLES"
  by (simp add: blur_weights_def MAX_SAMPLES_def)

lemma blur_weights_nth:
  assumes "0 \<le> i" "i \<le> MAX_SAMPLES - 1"
  shows "blur_weights n ! nat i = blur_weight n i"
proof -
  have "nat i < length [0..MAX_SAMPLES - 1]" using assms by simp
  moreover have "[0..MAX_SAMPLES - 1] ! nat i = i"
    using assms nth_upto [of 0 "nat i" "MAX_SAMPLES - 1"] by simp
  ultimately show ?thesis by (simp add: blur_weights_def)
qed

lemma shader_indices:
  assumes "1 \<le> n"
  shows "takeWhile (\<lambda>i. \<not> i \<ge> n) [0..MAX_SAMPLES - 1] = [0..min n MAX_SAMPLES - 1]"
proof (cases "n \<le> MAX_SAMPLES - 1")
  case True
  have "[0..MAX_SAMPLES - 1] = [0..n - 1] @ [n..MAX_SAMPLES - 1]"
    using assms True upto_split1 [of 0 n "MAX_SAMPLES - 1"] by simp
  moreover have "[n..MAX_SAMPLES - 1] = n # [n + 1..MAX_SAMPLES - 1]"
    using True by (simp add: upto_rec1)
  moreover have "takeWhile (\<lambda>i. \<not> i \<ge> n) ([0..n - 1] @ n # [n + 1..MAX_SAMPLES - 1]) =
      [0..n - 1] @ takeWhile (\<lambda>i. \<not> i \<ge> n) (n # [n + 1..MAX_SAMPLES - 1])"
    by (rule takeWhile_append2) auto
  ultimately have "takeWhile (\<lambda>i. \<not> i \<ge> n) [0..MAX_SAMPLES - 1] = [0..n - 1]"
    by simp
  then show ?thesis using True by (simp add: min_def)
next
  case False
  then have "takeWhile (\<lambda>i. \<not> i \<ge> n) [0..MAX_SAMPLES - 1] = [0..MAX_SAMPLES - 1]"
    by (intro takeWhile_eq_all_conv [THEN iffD2]) auto
  then show ?thesis using False by (simp add: min_def)
qed

lemma sum_list_concat_map:
  fixes f :: "'a \<Rightarrow> real"
  shows "sum_list (map f (concat (map h xs))) = sum_list (map (\<lambda>x. sum_list (map f (h x))) xs)"
  by (induct xs) simp_all

lemma shader_accumulate_indices:
  assumes "1 \<le> n"
  shows "shader_accumulate n ws texel =
           ws ! 0 * texel 0 +
           sum_list (map (\<lambda>i. ws ! nat i * texel (- i) + ws ! nat i * texel i)
             [1..min n MAX_SAMPLES - 1])"
proof -
  let ?m = "min n MAX_SAMPLES - 1"
  have m: "0 \<le> ?m" using assms by (simp add: MAX_SAMPLES_def)
  have split: "[0..?m] = 0 # [1..?m]" using m by (simp add: upto_rec1)
  have "shader_accumulate n ws texel =
          sum_list (map (\<lambda>i. sum_list (map (\<lambda>dir. ws ! nat i * texel (dir * i))
            (filter (\<lambda>dir. \<not> (i = 0 \<and> dir = 1)) [- 1, 1]))) [0..?m])"
    by (simp add: shader_accumulate_def shader_taps_def shader_indices [OF assms]
        sum_list_concat_map comp_def)
  also have "\<dots> = ws ! 0 * texel 0 +
      sum_list (map (\<lambda>i. sum_list (map (\<lambda>dir. ws ! nat i * texel (dir * i))
            (filter (\<lambda>dir. \<not> (i = 0 \<and> dir = 1)) [- 1, 1]))) [1..?m])"
    by (simp add: split)
  also have "map (\<lambda>i. sum_list (map (\<lambda>dir. ws ! nat i * texel (dir * i))
            (filter (\<lambda>dir. \<not> (i = 0 \<and> dir = 1)) [- 1, 1]))) [1..?m] =
      map (\<lambda>i. ws ! nat i * texel (- i) + ws ! nat i * texel i) [1..?m]"
    by (rule map_cong) auto
  finally show ?thesis .
qed

lemma weight_total_sum:
  assumes "1 \<le> n"
  shows "weight_total n =
           2 * sum_list (map (blur_weight n) [0..min n MAX_SAMPLES - 1]) - blur_weight n 0"
    and "weight_total n =
           inverseIntegral n *
             (1 + 2 * sum_list (map (\<lambda>i. exp (- gauss_arg n i)) [1..min n MAX_SAMPLES - 1]))"
proof -
  let ?m = "min n MAX_SAMPLES - 1"
  have m: "0 \<le> ?m" using assms by (simp add: MAX_SAMPLES_def)
  have split: "[0..?m] = 0 # [1..?m]" using m by (simp add: upto_rec1)
  have w0: "blur_weights n ! 0 = blur_weight n 0"
    using blur_weights_nth [of 0 n] by (simp add: MAX_SAMPLES_def)
  have eq: "map (\<lambda>i. blur_weights n ! nat i * 1 + blur_weights n ! nat i * 1) [1..?m] =
        map (\<lambda>i. 2 * blur_weight n i) [1..?m]"
    by (rule map_cong) (auto simp add: blur_weights_nth)
  have "weight_total n = blur_weights n ! 0 * 1 +
      sum_list (map (\<lambda>i. blur_weights n ! nat i * 1 + blur_weights n ! nat i * 1) [1..?m])"
    by (simp only: weight_total_def shader_accumulate_indices [OF assms])
  from this [unfolded eq] have t: "weight_total n =
      blur_weight n 0 + sum_list (map (\<lambda>i. 2 * blur_weight n i) [1..?m])"
    by (simp only: w0 mult_1_right)
  show "weight_total n = 2 * sum_list (map (blur_weight n) [0..?m]) - blur_weight n 0"
    by (simp add: t split sum_list_const_mult)
  show "weight_total n =
      inverseIntegral n * (1 + 2 * sum_list (map (\<lambda>i. exp (- gauss_arg n i)) [1..?m]))"
    by (simp add: t blur_weight_gauss gauss_arg_0 sum_list_const_mult algebra_simps)
qed

lemma sqrt_2pi_bounds: "250662827 / 10 ^ 8 < sqrt (2 * pi)" "sqrt (2 * pi) < 250662828 / 10 ^ 8"
proof -
  have "(250662827 / 10 ^ 8)\<^sup>2 < 2 * pi" using pi_bounds(1) by (simp add: power2_eq_square)
  then show "250662827 / 10 ^ 8 < sqrt (2 * pi)" by (rule real_less_rsqrt)
  have "2 * pi < (250662828 / 10 ^ 8)\<^sup>2" using pi_bounds(2) by (simp add: power2_eq_square)
  then show "sqrt (2 * pi) < 250662828 / 10 ^ 8" by (intro real_less_lsqrt) simp_all
qed

lemma gauss_arg_scale: "gauss_arg n i = gauss_arg n 1 * (of_int i)\<^sup>2"
  by (simp add: gauss_arg_def Let_def power2_eq_square)

lemma gauss_step:
  fixes c :: real
  shows "exp (- (c * (of_int (j + 1))\<^sup>2)) = exp (- (c * (of_int j)\<^sup>2)) * exp (- (c * (2 * of_int j + 1)))"
    and "exp (- (c * (2 * of_int (j + 1) + 1))) = exp (- (c * (2 * of_int j + 1))) * exp (- (2 * c))"
  by (simp_all add: power2_eq_square algebra_simps flip: exp_add)

lemma run_up_sound:
  assumes "exp (- (2 * c)) \<le> fx q2"
  shows "exp (- (c * (2 * of_int j + 1))) \<le> fx d \<Longrightarrow> exp (- (c * (of_int j)\<^sup>2)) \<le> fx e \<Longrightarrow>
    sum_list (map (\<lambda>i. exp (- (c * (of_int i)\<^sup>2))) [j..m]) \<le> fx (run_up [j..m] q2 d e)"
proof (induction j m arbitrary: d e rule: upto.induct)
  case (1 j m)
  show ?case
  proof (cases "j \<le> m")
    case False
    then show ?thesis by (simp add: fx_def)
  next
    case True
    then have rec: "[j..m] = j # [j + 1..m]" by (simp add: upto_rec1)
    have d: "exp (- (c * (2 * of_int (j + 1) + 1))) \<le> fx (mul_up d q2)"
      unfolding gauss_step(2) using 1(2) assms by (intro mul_up) simp_all
    have e: "exp (- (c * (of_int (j + 1))\<^sup>2)) \<le> fx (mul_up e d)"
      unfolding gauss_step(1) using 1(2,3) by (intro mul_up) simp_all
    have "fx (e + run_up [j + 1..m] q2 (mul_up d q2) (mul_up e d)) =
        fx e + fx (run_up [j + 1..m] q2 (mul_up d q2) (mul_up e d))"
      by (simp add: fx_def add_divide_distrib)
    then show ?thesis
      using 1(1) [OF True d e] 1(3) by (simp add: rec)
  qed
qed

lemma run_dn_sound:
  assumes "fx q2 \<le> exp (- (2 * c))" "0 \<le> q2"
  shows "fx d \<le> exp (- (c * (2 * of_int j + 1))) \<Longrightarrow> 0 \<le> d \<Longrightarrow>
    fx e \<le> exp (- (c * (of_int j)\<^sup>2)) \<Longrightarrow> 0 \<le> e \<Longrightarrow>
    fx (run_dn [j..m] q2 d e) \<le> sum_list (map (\<lambda>i. exp (- (c * (of_int i)\<^sup>2))) [j..m])"
proof (induction j m arbitrary: d e rule: upto.induct)
  case (1 j m)
  show ?case
  proof (cases "j \<le> m")
    case False
    then show ?thesis by (simp add: fx_def)
  next
    case True
    then have rec: "[j..m] = j # [j + 1..m]" by (simp add: upto_rec1)
    have d: "fx (mul_dn d q2) \<le> exp (- (c * (2 * of_int (j + 1) + 1)))"
      unfolding gauss_step(2) using 1(2,3) assms by (intro mul_dn) simp_all
    have e: "fx (mul_dn e d) \<le> exp (- (c * (of_int (j + 1))\<^sup>2))"
      unfolding gauss_step(1) using 1(2,3,4,5) by (intro mul_dn) simp_all
    have "fx (e + run_dn [j + 1..m] q2 (mul_dn d q2) (mul_dn e d)) =
        fx e + fx (run_dn [j + 1..m] q2 (mul_dn d q2) (mul_dn e d))"
      by (simp add: fx_def add_divide_distrib)
    then show ?thesis
      using 1(1) [OF True d mul_dn_nonneg [OF 1(3) assms(2)] e mul_dn_nonneg [OF 1(5) 1(3)]] 1(4)
      by (simp add: rec)
  qed
qed

lemma run_dn_nonneg: "0 \<le> q2 \<Longrightarrow> 0 \<le> d \<Longrightarrow> 0 \<le> e \<Longrightarrow> 0 \<le> run_dn js q2 d e"
  by (induction js arbitrary: d e) (simp_all add: mul_dn_nonneg)

lemma exp_lo_nonneg: "0 \<le> exp_lo t"
  by (simp add: exp_lo_def sqr_dn_nonneg)

lemma gauss_tail_bounds:
  "fx (tail_lo n) \<le> sum_list (map (\<lambda>i. exp (- gauss_arg n i)) [1..min n MAX_SAMPLES - 1])"
  "sum_list (map (\<lambda>i. exp (- gauss_arg n i)) [1..min n MAX_SAMPLES - 1]) \<le> fx (tail_hi n)"
  "0 \<le> tail_lo n"
proof -
  define c where "c = gauss_arg n 1"
  have c: "0 \<le> c" by (simp add: c_def gauss_arg_nonneg)
  have g: "(\<lambda>i. exp (- gauss_arg n i)) = (\<lambda>i. exp (- (c * (of_int i)\<^sup>2)))"
    by (subst gauss_arg_scale) (simp add: c_def)
  have e2: "exp (- (2 * c)) = exp (- c) * exp (- c)"
    and e3: "exp (- (c * (2 * of_int 1 + 1))) = (exp (- c) * exp (- c)) * exp (- c)"
    and e1: "exp (- (c * (of_int 1)\<^sup>2)) = exp (- c)"
    by (simp_all add: algebra_simps flip: exp_add)
  define u where "u = exp_hi c"
  have u: "exp (- c) \<le> fx u" unfolding u_def by (rule exp_hi [OF c])
  have u2: "exp (- (2 * c)) \<le> fx (mul_up u u)"
    unfolding e2 using u by (intro mul_up) simp_all
  have u3: "exp (- (c * (2 * of_int 1 + 1))) \<le> fx (mul_up (mul_up u u) u)"
    unfolding e3 using u u2 [unfolded e2] by (intro mul_up) simp_all
  show "sum_list (map (\<lambda>i. exp (- gauss_arg n i)) [1..min n MAX_SAMPLES - 1]) \<le> fx (tail_hi n)"
    unfolding g tail_hi_def tail_from_up_def c_def [symmetric] u_def [symmetric]
    using run_up_sound [OF u2 u3] u by (simp add: e1)
  define l where "l = exp_lo c"
  have l: "fx l \<le> exp (- c)" "0 \<le> l"
    unfolding l_def by (rule exp_lo [OF c], rule exp_lo_nonneg)
  have l2: "fx (mul_dn l l) \<le> exp (- (2 * c))" "0 \<le> mul_dn l l"
    unfolding e2 using l by (intro mul_dn mul_dn_nonneg; simp)+
  have l3: "fx (mul_dn (mul_dn l l) l) \<le> exp (- (c * (2 * of_int 1 + 1)))" "0 \<le> mul_dn (mul_dn l l) l"
    unfolding e3 using l l2 [unfolded e2] by (intro mul_dn mul_dn_nonneg; simp)+
  show "fx (tail_lo n) \<le> sum_list (map (\<lambda>i. exp (- gauss_arg n i)) [1..min n MAX_SAMPLES - 1])"
    unfolding g tail_lo_def tail_from_dn_def c_def [symmetric] l_def [symmetric]
    using run_dn_sound [OF l2 l3] l by (simp add: e1)
  show "0 \<le> tail_lo n"
    unfolding tail_lo_def tail_from_dn_def c_def [symmetric] l_def [symmetric]
    by (intro run_dn_nonneg l l2 l3)
qed

lemma weight_above_sound:
  assumes "2 \<le> n" "weight_above a n"
  shows "of_int a / 1000 < weight_total n"
proof -
  define S where "S = sum_list (map (\<lambda>i. exp (- gauss_arg n i)) [1..min n MAX_SAMPLES - 1])"
  define r where "r = sqrt (2 * pi)"
  define L where "L = real_of_int a * (of_int (n - 1) * (250662828 / 10 ^ 8))"
  define M where "M = real_of_int a * (of_int (n - 1) * r)"
  define T where "T = fx (tail_lo n)"
  have n: "0 < real_of_int (n - 1)" using assms(1) by simp
  have r: "0 < r" "r < 250662828 / 10 ^ 8" using sqrt_2pi_bounds(2) by (simp_all add: r_def)
  have "real_of_int (a * FX * (n - 1) * 250662828) < real_of_int (3 * 10 ^ 11 * (FX + 2 * tail_lo n))"
    using assms(2) unfolding weight_above_def by (rule iffD2 [OF of_int_less_iff])
  then have 1: "L < 3000 + 6000 * T"
    using FX_pos by (simp add: L_def T_def fx_def field_simps)
  have "0 \<le> T"
    unfolding T_def by (rule fx_nonneg) (rule gauss_tail_bounds(3))
  moreover have "T \<le> S"
    unfolding T_def S_def by (rule gauss_tail_bounds(1))
  ultimately have T: "0 \<le> T" "T \<le> S" .
  have "M < 3000 + 6000 * S"
  proof (cases "0 \<le> a")
    case True
    then have "M \<le> L"
      unfolding M_def L_def using n r by (intro mult_left_mono) simp_all
    with 1 T show ?thesis by linarith
  next
    case False
    then have "M \<le> 0"
      unfolding M_def using n r by (simp add: mult_le_0_iff)
    with T show ?thesis by linarith
  qed
  then have "of_int a / 1000 < 3 * (1 + 2 * S) / (of_int (n - 1) * r)"
    using n r(1) by (simp add: M_def field_simps)
  then show ?thesis
    using assms(1) by (simp add: weight_total_sum(2) inverseIntegral_def S_def r_def)
qed

lemma weight_below_sound:
  assumes "2 \<le> n" "weight_below b n"
  shows "weight_total n < of_int b / 1000"
proof -
  define S where "S = sum_list (map (\<lambda>i. exp (- gauss_arg n i)) [1..min n MAX_SAMPLES - 1])"
  define r where "r = sqrt (2 * pi)"
  define U where "U = real_of_int b * (of_int (n - 1) * (250662827 / 10 ^ 8))"
  define M where "M = real_of_int b * (of_int (n - 1) * r)"
  define T where "T = fx (tail_hi n)"
  have n: "0 < real_of_int (n - 1)" using assms(1) by simp
  have r: "0 < r" "250662827 / 10 ^ 8 < r" using sqrt_2pi_bounds(1) by (simp_all add: r_def)
  have "0 \<le> S"
    unfolding S_def by (rule sum_list_nonneg) auto
  moreover have "S \<le> T"
    unfolding T_def S_def by (rule gauss_tail_bounds(2))
  ultimately have S: "0 \<le> S" "S \<le> T" .
  have "real_of_int (3 * 10 ^ 11 * (FX + 2 * tail_hi n)) < real_of_int (b * FX * (n - 1) * 250662827)"
    using assms(2) unfolding weight_below_def by (rule iffD2 [OF of_int_less_iff])
  then have 1: "3000 + 6000 * T < U"
    using FX_pos by (simp add: U_def T_def fx_def field_simps)
  with S have "0 < U" by linarith
  then have b: "0 < real_of_int b"
    unfolding U_def using n by (simp add: zero_less_mult_iff)
  have "U \<le> M"
    unfolding U_def M_def using b n r by (intro mult_left_mono) simp_all
  with 1 S have "3000 + 6000 * S < M" by linarith
  then have "3 * (1 + 2 * S) / (of_int (n - 1) * r) < of_int b / 1000"
    using n r(1) by (simp add: M_def field_simps)
  then show ?thesis
    using assms(1) by (simp add: weight_total_sum(2) inverseIntegral_def S_def r_def)
qed

lemmas fx_eval = exp_hi_def exp_lo_def sqr_up_def sqr_dn_def mul_up_def mul_dn_def
  fx_up_def fx_dn_def FX_def exp_taylor_hi_def exp_taylor_lo_def gauss_arg_def
  tail_from_up_def tail_from_dn_def

lemma tail_2: "tail_lo 2 = 186374" "tail_hi 2 = 186434"
  apply (simp_all add: tail_lo_def tail_hi_def MAX_SAMPLES_def upto_rec1)
  apply (simp_all add: fx_eval)
  done

lemma tail_3: "tail_lo 3 = 5633133" "tail_hi 3 = 5633156"
  apply (simp_all add: tail_lo_def tail_hi_def MAX_SAMPLES_def upto_rec1)
  apply (simp_all add: fx_eval)
  done

lemma tail_4: "tail_lo 4 = 12632807" "tail_hi 4 = 12632854"
  apply (simp_all add: tail_lo_def tail_hi_def MAX_SAMPLES_def upto_rec1)
  apply (simp_all add: fx_eval)
  done

lemma tail_5: "tail_lo 5 = 19631951" "tail_hi 5 = 19632063"
  apply (simp_all add: tail_lo_def tail_hi_def MAX_SAMPLES_def upto_rec1)
  apply (simp_all add: fx_eval)
  done

lemma tail_6: "tail_lo 6 = 26628137" "tail_hi 6 = 26628334"
  apply (simp_all add: tail_lo_def tail_hi_def MAX_SAMPLES_def upto_rec1)
  apply (simp_all add: fx_eval)
  done

lemma tail_7: "tail_lo 7 = 33622412" "tail_hi 7 = 33622730"
  apply (simp_all add: tail_lo_def tail_hi_def MAX_SAMPLES_def upto_rec1)
  apply (simp_all add: fx_eval)
  done

lemma tail_8: "tail_lo 8 = 40615643" "tail_hi 8 = 40616176"
  apply (simp_all add: tail_lo_def tail_hi_def MAX_SAMPLES_def upto_rec1)
  apply (simp_all add: fx_eval)
  done

lemma tail_9: "tail_lo 9 = 47607753" "tail_hi 9 = 47608537"
  apply (simp_all add: tail_lo_def tail_hi_def MAX_SAMPLES_def upto_rec1)
  apply (simp_all add: fx_eval)
  done

lemma tail_10: "tail_lo 10 = 54599552" "tail_hi 10 = 54600639"
  apply (simp_all add: tail_lo_def tail_hi_def MAX_SAMPLES_def upto_rec1)
  apply (simp_all add: fx_eval)
  done

lemma tail_11: "tail_lo 11 = 61591242" "tail_hi 11 = 61592722"
  apply (simp_all add: tail_lo_def tail_hi_def MAX_SAMPLES_def upto_rec1)
  apply (simp_all add: fx_eval)
  done

lemma tail_12: "tail_lo 12 = 68581980" "tail_hi 12 = 68584018"
  apply (simp_all add: tail_lo_def tail_hi_def MAX_SAMPLES_def upto_rec1)
  apply (simp_all add: fx_eval)
  done

lemma tail_13: "tail_lo 13 = 75572469" "tail_hi 13 = 75575073"
  apply (simp_all add: tail_lo_def tail_hi_def MAX_SAMPLES_def upto_rec1)
  apply (simp_all add: fx_eval)
  done

lemma tail_14: "tail_lo 14 = 82563876" "tail_hi 14 = 82567162"
  apply (simp_all add: tail_lo_def tail_hi_def MAX_SAMPLES_def upto_rec1)
  apply (simp_all add: fx_eval)
  done

lemma tail_15: "tail_lo 15 = 89553415" "tail_hi 15 = 89557496"
  apply (simp_all add: tail_lo_def tail_hi_def MAX_SAMPLES_def upto_rec1)
  apply (simp_all add: fx_eval)
  done

lemma tail_16: "tail_lo 16 = 96544807" "tail_hi 16 = 96549676"
  apply (simp_all add: tail_lo_def tail_hi_def MAX_SAMPLES_def upto_rec1)
  apply (simp_all add: fx_eval)
  done

lemma tail_17: "tail_lo 17 = 103536004" "tail_hi 17 = 103542102"
  apply (simp_all add: tail_lo_def tail_hi_def MAX_SAMPLES_def upto_rec1)
  apply (simp_all add: fx_eval)
  done

lemma tail_18: "tail_lo 18 = 110523874" "tail_hi 18 = 110530913"
  apply (simp_all add: tail_lo_def tail_hi_def MAX_SAMPLES_def upto_rec1)
  apply (simp_all add: fx_eval)
  done

lemma tail_19: "tail_lo 19 = 117513237" "tail_hi 19 = 117521833"
  apply (simp_all add: tail_lo_def tail_hi_def MAX_SAMPLES_def upto_rec1)
  apply (simp_all add: fx_eval)
  done

lemma tail_20: "tail_lo 20 = 124506488" "tail_hi 20 = 124516692"
  apply (simp_all add: tail_lo_def tail_hi_def MAX_SAMPLES_def upto_rec1)
  apply (simp_all add: fx_eval)
  done

lemma tail_21: "tail_hi 21 = 131319629"
  apply (simp add: tail_hi_def MAX_SAMPLES_def upto_rec1)
  apply (simp add: fx_eval)
  done

lemma tail_22: "tail_hi 22 = 138025351"
  apply (simp add: tail_hi_def MAX_SAMPLES_def upto_rec1)
  apply (simp add: fx_eval)
  done

lemma tail_23: "tail_hi 23 = 144614683"
  apply (simp add: tail_hi_def MAX_SAMPLES_def upto_rec1)
  apply (simp add: fx_eval)
  done

lemma tail_24: "tail_hi 24 = 151065061"
  apply (simp add: tail_hi_def MAX_SAMPLES_def upto_rec1)
  apply (simp add: fx_eval)
  done

lemma tail_25: "tail_hi 25 = 157352736"
  apply (simp add: tail_hi_def MAX_SAMPLES_def upto_rec1)
  apply (simp add: fx_eval)
  done

lemma tail_26: "tail_hi 26 = 163477200"
  apply (simp add: tail_hi_def MAX_SAMPLES_def upto_rec1)
  apply (simp add: fx_eval)
  done

lemma tail_27: "tail_hi 27 = 169416591"
  apply (simp add: tail_hi_def MAX_SAMPLES_def upto_rec1)
  apply (simp add: fx_eval)
  done

lemma tail_28: "tail_hi 28 = 175154417"
  apply (simp add: tail_hi_def MAX_SAMPLES_def upto_rec1)
  apply (simp add: fx_eval)
  done

lemma tail_29: "tail_hi 29 = 180697919"
  apply (simp add: tail_hi_def MAX_SAMPLES_def upto_rec1)
  apply (simp add: fx_eval)
  done

lemma tail_30: "tail_hi 30 = 186029469"
  apply (simp add: tail_hi_def MAX_SAMPLES_def upto_rec1)
  apply (simp add: fx_eval)
  done

lemma tail_31: "tail_hi 31 = 191149566"
  apply (simp add: tail_hi_def MAX_SAMPLES_def upto_rec1)
  apply (simp add: fx_eval)
  done

lemma tail_32: "tail_hi 32 = 196073470"
  apply (simp add: tail_hi_def MAX_SAMPLES_def upto_rec1)
  apply (simp add: fx_eval)
  done

lemma tail_33: "tail_hi 33 = 200794691"
  apply (simp add: tail_hi_def MAX_SAMPLES_def upto_rec1)
  apply (simp add: fx_eval)
  done

lemma tail_34: "tail_hi 34 = 205309112"
  apply (simp add: tail_hi_def MAX_SAMPLES_def upto_rec1)
  apply (simp add: fx_eval)
  done

lemma tail_35: "tail_hi 35 = 209616885"
  apply (simp add: tail_hi_def MAX_SAMPLES_def upto_rec1)
  apply (simp add: fx_eval)
  done

lemma tail_36: "tail_hi 36 = 213751642"
  apply (simp add: tail_hi_def MAX_SAMPLES_def upto_rec1)
  apply (simp add: fx_eval)
  done

lemma tail_37: "tail_hi 37 = 217696861"
  apply (simp add: tail_hi_def MAX_SAMPLES_def upto_rec1)
  apply (simp add: fx_eval)
  done

lemma tail_38: "tail_hi 38 = 221458560"
  apply (simp add: tail_hi_def MAX_SAMPLES_def upto_rec1)
  apply (simp add: fx_eval)
  done

lemma tail_39: "tail_hi 39 = 225054903"
  apply (simp add: tail_hi_def MAX_SAMPLES_def upto_rec1)
  apply (simp add: fx_eval)
  done

lemma tail_40: "tail_hi 40 = 228478185"
  apply (simp add: tail_hi_def MAX_SAMPLES_def upto_rec1)
  apply (simp add: fx_eval)
  done

lemma tail_41: "tail_hi 41 = 231771122"
  apply (simp add: tail_hi_def MAX_SAMPLES_def upto_rec1)
  apply (simp add: fx_eval)
  done

lemma tail_42: "tail_hi 42 = 234885822"
  apply (simp add: tail_hi_def MAX_SAMPLES_def upto_rec1)
  apply (simp add: fx_eval)
  done

lemma tail_43: "tail_hi 43 = 237865415"
  apply (simp add: tail_hi_def MAX_SAMPLES_def upto_rec1)
  apply (simp add: fx_eval)
  done

lemma tail_44: "tail_hi 44 = 240712104"
  apply (simp add: tail_hi_def MAX_SAMPLES_def upto_rec1)
  apply (simp add: fx_eval)
  done

lemma tail_45: "tail_hi 45 = 243408865"
  apply (simp add: tail_hi_def MAX_SAMPLES_def upto_rec1)
  apply (simp add: fx_eval)
  done

lemma tail_46: "tail_hi 46 = 245997721"
  apply (simp add: tail_hi_def MAX_SAMPLES_def upto_rec1)
  apply (simp add: fx_eval)
  done

lemma tail_47: "tail_hi 47 = 248488283"
  apply (simp add: tail_hi_def MAX_SAMPLES_def upto_rec1)
  apply (simp add: fx_eval)
  done

lemmas tail_values =
  tail_2 tail_3 tail_4 tail_5 tail_6 tail_7 tail_8 tail_9 tail_10 tail_11 tail_12 tail_13
  tail_14 tail_15 tail_16 tail_17 tail_18 tail_19 tail_20

lemma weight_total_enclosure:
  assumes "3 \<le> n" "n \<le> MAX_SAMPLES"
  shows "weight_above 997 n \<and> weight_below 1003 n"
proof -
  have "list_all (\<lambda>k. weight_above 997 k \<and> weight_below 1003 k) [3..20]"
    by (simp add: weight_above_def weight_below_def tail_values FX_def)
  moreover have "n \<in> set [3..20]"
    using assms by (simp del: upto_rec_numeral add: MAX_SAMPLES_def)
  ultimately show ?thesis
    unfolding list_all_iff by blast
qed

text \<open>
  C6, amended: for every sample count \<open>n\<close> from 3 to \<open>MAX_SAMPLES\<close> the total weight
  the shader applies with the weights built for \<open>n\<close> is the sum over both directions
  with the centre counted once, \<open>2 (w_0 + ... + w_(n-1)) - w_0\<close>, and lies within
  \<open>3/1000\<close> of 1.
\<close>

theorem weight_sum_tolerance:
  assumes "3 \<le> n" "n \<le> MAX_SAMPLES"
  shows "weight_total n = 2 * sum_list (map (blur_weight n) [0..n - 1]) - blur_weight n 0
    \<and> \<bar>weight_total n - 1\<bar> < 3 / 1000"
proof -
  have n: "1 \<le> n" "2 \<le> n" "min n MAX_SAMPLES = n" using assms by simp_all
  have lo: "997 / 1000 < weight_total n"
    using weight_above_sound [OF n(2), of 997] weight_total_enclosure [OF assms] by simp
  have hi: "weight_total n < 1003 / 1000"
    using weight_below_sound [OF n(2), of 1003] weight_total_enclosure [OF assms] by simp
  have near: "\<bar>weight_total n - 1\<bar> < 3 / 1000"
    using lo hi by linarith
  have total: "weight_total n = 2 * sum_list (map (blur_weight n) [0..n - 1]) - blur_weight n 0"
    using weight_total_sum(1) [OF n(1)] by (simp add: n(3))
  show ?thesis
    by (intro conjI total near)
qed

theorem weight_sum_tolerance_witness:
  "(3::int) \<le> 4 \<and> 4 \<le> MAX_SAMPLES \<and> \<bar>weight_total 4 - 1\<bar> < 3 / 1000"
proof -
  have h: "(3::int) \<le> 4" "4 \<le> MAX_SAMPLES"
    by (simp_all add: MAX_SAMPLES_def)
  from weight_sum_tolerance [OF h] have "\<bar>weight_total 4 - 1\<bar> < 3 / 1000"
    by (rule conjunct2)
  with h show ?thesis by (intro conjI)
qed

text \<open>
  The claim as stated fails at \<open>n = 2\<close>, where the total weight exceeds 1.2, and at
  \<open>n = 20\<close>, the sample count of the last blur of the pipeline, where it is below 0.999.
\<close>

theorem weight_sum_counterexample:
  "(2::int) \<le> 2 \<and> \<not> \<bar>weight_total 2 - 1\<bar> \<le> 1 / 1000
   \<and> weight_total 2 = 2 * sum_list (map (blur_weight 2) [0, 1]) - blur_weight 2 0
   \<and> (2::int) \<le> 20 \<and> 20 \<le> MAX_SAMPLES \<and> \<not> \<bar>weight_total 20 - 1\<bar> \<le> 1 / 1000"
proof -
  have "weight_above 1200 2"
    by (simp add: weight_above_def tail_values FX_def)
  then have "1200 / 1000 < weight_total 2"
    using weight_above_sound [of 2 1200] by simp
  moreover have "weight_below 999 20"
    by (simp add: weight_below_def tail_values FX_def)
  then have "weight_total 20 < 999 / 1000"
    using weight_below_sound [of 20 999] by simp
  ultimately have far: "\<not> \<bar>weight_total 2 - 1\<bar> \<le> 1 / 1000"
    "\<not> \<bar>weight_total 20 - 1\<bar> \<le> 1 / 1000"
    by linarith+
  have total: "weight_total 2 = 2 * sum_list (map (blur_weight 2) [0, 1]) - blur_weight 2 0"
    using weight_total_sum(1) [of 2] by (simp add: MAX_SAMPLES_def upto_rec1)
  have "(2::int) \<le> 2" "(2::int) \<le> 20" "20 \<le> MAX_SAMPLES"
    by (simp_all add: MAX_SAMPLES_def)
  with far total show ?thesis by (intro conjI)
qed

section \<open>Requests over the cap\<close>

text \<open>
  Rounding to the nearest double moves a number by at most the relative distance
  \<open>1 / 2 ^ 53\<close>, so the quotient that the source computes in doubles lies within the
  relative distance \<open>1 / 2 ^ 50\<close> of the quotient over the reals; where the standard
  deviation settles the count, the count of the source is \<open>blur_sample_count\<close>.
\<close>

lemma round_even_error: "\<bar>of_int (round_even y) - y\<bar> \<le> 1 / 2"
  unfolding round_even_def Let_def by (auto; linarith)

lemma fl_error: "\<bar>fl x - x\<bar> \<le> \<bar>x\<bar> / 2 ^ 53"
proof (cases "x = 0")
  case True
  then show ?thesis by (simp add: fl_def)
next
  case False
  define e where "e = \<lfloor>log 2 \<bar>x\<bar>\<rfloor>"
  define ulp :: real where "ulp = 2 powi (e - 52)"
  have ulp: "0 < ulp" by (simp add: ulp_def zero_less_power_int)
  have "2 powr real_of_int e \<le> \<bar>x\<bar>"
    using floor_log_eq_powr_iff [of "\<bar>x\<bar>" 2 e] False by (simp add: e_def)
  then have lo: "2 powi e \<le> \<bar>x\<bar>"
    by (simp add: powr_real_of_int')
  have e52: "(2::real) powi e = ulp * 2 ^ 52"
    by (simp add: ulp_def power_int_diff)
  have "fl x = of_int (round_even (x / ulp)) * ulp"
    using False by (simp add: fl_def e_def ulp_def Let_def)
  then have "fl x - x = (of_int (round_even (x / ulp)) - x / ulp) * ulp"
    using ulp by (simp add: algebra_simps)
  then have "\<bar>fl x - x\<bar> = \<bar>of_int (round_even (x / ulp)) - x / ulp\<bar> * ulp"
    using ulp by (simp add: abs_mult)
  also have "\<dots> \<le> 1 / 2 * ulp"
    using round_even_error [of "x / ulp"] ulp by (intro mult_right_mono) simp_all
  also have "\<dots> = (ulp * 2 ^ 52) / 2 ^ 53" by simp
  also have "\<dots> \<le> \<bar>x\<bar> / 2 ^ 53"
    using lo by (intro divide_right_mono) (simp_all add: e52)
  finally show ?thesis .
qed

lemma fl_bounds:
  assumes "0 \<le> x"
  shows "x * (1 - 1 / 2 ^ 53) \<le> fl x" "fl x \<le> x * (1 + 1 / 2 ^ 53)"
proof -
  have "\<bar>fl x - x\<bar> \<le> x / 2 ^ 53" using fl_error [of x] assms by simp
  then have "x - fl x \<le> x / 2 ^ 53" "fl x - x \<le> x / 2 ^ 53" by linarith+
  then show "x * (1 - 1 / 2 ^ 53) \<le> fl x" "fl x \<le> x * (1 + 1 / 2 ^ 53)"
    by (simp_all add: algebra_simps)
qed

lemma fl_nonneg: "0 \<le> x \<Longrightarrow> 0 \<le> fl x"
proof -
  assume x: "0 \<le> x"
  have "0 \<le> x * (1 - 1 / 2 ^ 53)" using x by (intro mult_nonneg_nonneg) simp_all
  with fl_bounds(1) [OF x] show ?thesis by linarith
qed

lemma double_quotient_bounds:
  assumes sd: "0 \<le> sd" and sz: "0 \<le> sz"
  defines "q \<equiv> 3 * sd * of_int sz * 2 / pi"
  defines "d \<equiv> fl (fl (fl (fl (3 * sd) * of_int sz) * 2) / Math_PI)"
  shows "q * (1 - 1 / 2 ^ 50) \<le> d" "d \<le> q * (1 + 1 / 2 ^ 50)"
proof -
  define lo :: real where "lo = 1 - 1 / 2 ^ 53"
  define hi :: real where "hi = 1 + 1 / 2 ^ 53"
  have lo: "0 \<le> lo" and hi: "0 \<le> hi" by (simp_all add: lo_def hi_def)
  define a where "a = fl (3 * sd)"
  define b where "b = fl (a * of_int sz)"
  define c where "c = fl (b * 2)"
  have P: "0 < Math_PI" by (simp add: Math_PI_def)
  have a0: "0 \<le> 3 * sd" using sd by simp
  have a: "3 * sd * lo \<le> a" "a \<le> 3 * sd * hi" "0 \<le> a"
    using fl_bounds [OF a0] fl_nonneg [OF a0] by (simp_all add: a_def lo_def hi_def)
  have b0: "0 \<le> a * of_int sz" using a(3) sz by simp
  have b: "a * of_int sz * lo \<le> b" "b \<le> a * of_int sz * hi" "0 \<le> b"
    using fl_bounds [OF b0] fl_nonneg [OF b0] by (simp_all add: b_def lo_def hi_def)
  have c0: "0 \<le> b * 2" using b(3) by simp
  have c: "b * 2 * lo \<le> c" "c \<le> b * 2 * hi" "0 \<le> c"
    using fl_bounds [OF c0] fl_nonneg [OF c0] by (simp_all add: c_def lo_def hi_def)
  have d0: "0 \<le> c / Math_PI" using c(3) P by simp
  have d: "c / Math_PI * lo \<le> d" "d \<le> c / Math_PI * hi"
    using fl_bounds [OF d0] by (simp_all add: d_def c_def b_def a_def lo_def hi_def)
  define s where "s = 3 * sd * of_int sz * 2"
  have s0: "0 \<le> s" using sd sz by (simp add: s_def)
  have "s * lo * lo * lo \<le> c"
  proof -
    have z: "0 \<le> real_of_int sz" "(0::real) \<le> 2" using sz by simp_all
    have "3 * sd * lo * of_int sz \<le> a * of_int sz"
      by (rule mult_right_mono [OF a(1) z(1)])
    then have "3 * sd * lo * of_int sz * lo \<le> a * of_int sz * lo"
      by (rule mult_right_mono [OF _ lo])
    then have "3 * sd * lo * of_int sz * lo \<le> b" using b(1) by linarith
    then have "3 * sd * lo * of_int sz * lo * 2 \<le> b * 2"
      by (rule mult_right_mono [OF _ z(2)])
    then have "3 * sd * lo * of_int sz * lo * 2 * lo \<le> b * 2 * lo"
      by (rule mult_right_mono [OF _ lo])
    then have "3 * sd * lo * of_int sz * lo * 2 * lo \<le> c" using c(1) by linarith
    then show ?thesis by (simp add: s_def mult_ac)
  qed
  then have "s * lo * lo * lo / Math_PI \<le> c / Math_PI"
    using P by (intro divide_right_mono) simp_all
  then have "s * lo * lo * lo / Math_PI * lo \<le> c / Math_PI * lo"
    by (rule mult_right_mono [OF _ lo])
  then have dl: "s / Math_PI * (lo * lo * lo * lo) \<le> d"
    using d(1) by (simp add: mult_ac)
  have "c \<le> s * hi * hi * hi"
  proof -
    have z: "0 \<le> real_of_int sz" "(0::real) \<le> 2" using sz by simp_all
    have "a * of_int sz \<le> 3 * sd * hi * of_int sz"
      by (rule mult_right_mono [OF a(2) z(1)])
    then have "a * of_int sz * hi \<le> 3 * sd * hi * of_int sz * hi"
      by (rule mult_right_mono [OF _ hi])
    then have "b \<le> 3 * sd * hi * of_int sz * hi" using b(2) by linarith
    then have "b * 2 \<le> 3 * sd * hi * of_int sz * hi * 2"
      by (rule mult_right_mono [OF _ z(2)])
    then have "b * 2 * hi \<le> 3 * sd * hi * of_int sz * hi * 2 * hi"
      by (rule mult_right_mono [OF _ hi])
    then have "c \<le> 3 * sd * hi * of_int sz * hi * 2 * hi" using c(2) by linarith
    then show ?thesis by (simp add: s_def mult_ac)
  qed
  then have "c / Math_PI \<le> s * hi * hi * hi / Math_PI"
    using P by (intro divide_right_mono) simp_all
  then have "c / Math_PI * hi \<le> s * hi * hi * hi / Math_PI * hi"
    by (rule mult_right_mono [OF _ hi])
  then have dh: "d \<le> s / Math_PI * (hi * hi * hi * hi)"
    using d(2) by (simp add: mult_ac)
  have q: "q = s / pi" by (simp add: q_def s_def)
  have inv_lo: "1 / pi \<le> 1 / Math_PI"
    using Math_PI_bounds(1) P by (intro divide_left_mono) simp_all
  have "1 / (Math_PI * (1 + 1 / 2 ^ 54)) \<le> 1 / pi"
    using Math_PI_bounds(2) P by (intro divide_left_mono) simp_all
  then have inv_hi: "1 / Math_PI \<le> 1 / pi * (1 + 1 / 2 ^ 54)"
    using P by (simp add: field_simps)
  have l4: "1 - 1 / 2 ^ 50 \<le> lo * lo * lo * lo" by (simp add: lo_def)
  have h4: "(1 + 1 / 2 ^ 54) * (hi * hi * hi * hi) \<le> 1 + 1 / 2 ^ 50" by (simp add: hi_def)
  have l4': "0 \<le> lo * lo * lo * lo" using lo by simp
  have h4': "0 \<le> hi * hi * hi * hi" using hi by simp
  have "q * (1 - 1 / 2 ^ 50) \<le> q * (lo * lo * lo * lo)"
    using l4 s0 by (intro mult_left_mono) (simp_all add: q)
  also have "\<dots> = s * (1 / pi) * (lo * lo * lo * lo)" by (simp add: q)
  also have "\<dots> \<le> s * (1 / Math_PI) * (lo * lo * lo * lo)"
    using inv_lo s0 l4' by (intro mult_right_mono mult_left_mono)
  also have "\<dots> \<le> d" using dl by simp
  finally show "q * (1 - 1 / 2 ^ 50) \<le> d" .
  have "d \<le> s * (1 / Math_PI) * (hi * hi * hi * hi)" using dh by simp
  also have "\<dots> \<le> s * (1 / pi * (1 + 1 / 2 ^ 54)) * (hi * hi * hi * hi)"
    using inv_hi s0 h4' by (intro mult_right_mono mult_left_mono)
  also have "\<dots> = q * ((1 + 1 / 2 ^ 54) * (hi * hi * hi * hi))" by (simp add: q)
  also have "\<dots> \<le> q * (1 + 1 / 2 ^ 50)"
    using h4 s0 by (intro mult_left_mono) (simp_all add: q)
  finally show "d \<le> q * (1 + 1 / 2 ^ 50)" .
qed

lemma double_sample_count_settled:
  assumes "count_settled sd sz" "0 \<le> sd" "0 \<le> sz"
  shows "double_sample_count sd sz = blur_sample_count sd sz"
proof -
  define q where "q = 3 * sd * of_int sz * 2 / pi"
  have q0: "0 \<le> q" using assms(2,3) by (simp add: q_def)
  define k where "k = blur_sample_count (sd * (1 - 1 / 2 ^ 50)) sz"
  have k1: "k = \<lceil>q * (1 - 1 / 2 ^ 50)\<rceil>"
    by (simp add: k_def blur_sample_count_def q_def mult_ac)
  have k2: "k = \<lceil>q * (1 + 1 / 2 ^ 50)\<rceil>"
    using assms(1) by (simp add: k_def count_settled_def blur_sample_count_def q_def mult_ac)
  have b: "q * (1 - 1 / 2 ^ 50) \<le> q" "q \<le> q * (1 + 1 / 2 ^ 50)"
    using q0 by (simp_all add: algebra_simps)
  have "\<lceil>q * (1 - 1 / 2 ^ 50)\<rceil> \<le> \<lceil>q\<rceil>" "\<lceil>q\<rceil> \<le> \<lceil>q * (1 + 1 / 2 ^ 50)\<rceil>"
    by (rule ceiling_mono [OF b(1)]) (rule ceiling_mono [OF b(2)])
  then have r: "blur_sample_count sd sz = k"
    using k1 k2 by (simp add: blur_sample_count_def q_def)
  note d = double_quotient_bounds [OF assms(2,3)]
  have "\<lceil>q * (1 - 1 / 2 ^ 50)\<rceil> \<le> double_sample_count sd sz"
    "double_sample_count sd sz \<le> \<lceil>q * (1 + 1 / 2 ^ 50)\<rceil>"
    unfolding double_sample_count_def q_def
    by (rule ceiling_mono [OF d(1)]) (rule ceiling_mono [OF d(2)])
  then have "double_sample_count sd sz = k" using k1 k2 by simp
  with r show ?thesis by simp
qed

lemma blur_sample_count_value:
  assumes "of_int (k - 1) * pi < 6 * sd * of_int sz" "6 * sd * of_int sz \<le> of_int k * pi"
  shows "blur_sample_count sd sz = k"
proof -
  have 1: "of_int k - 1 < 3 * sd * of_int sz * 2 / pi"
    using assms(1) by (simp add: pos_less_divide_eq mult_ac)
  have 2: "3 * sd * of_int sz * 2 / pi \<le> of_int k"
    using assms(2) by (simp add: pos_divide_le_eq mult_ac)
  show ?thesis
    unfolding blur_sample_count_def using 1 2 by (intro ceiling_unique) simp_all
qed

lemma count_settled_value:
  assumes "of_int (k - 1) * pi < 6 * (sd * (1 - 1 / 2 ^ 50)) * of_int sz"
    and "6 * (sd * (1 + 1 / 2 ^ 50)) * of_int sz \<le> of_int k * pi"
    and "0 \<le> sd" "0 \<le> sz"
  shows "count_settled sd sz" "blur_sample_count sd sz = k" "double_sample_count sd sz = k"
proof -
  define A where "A = 6 * sd * real_of_int sz"
  have z: "0 \<le> A" using assms(3,4) by (simp add: A_def)
  have e: "6 * (sd * (1 - 1 / 2 ^ 50)) * of_int sz = A - A / 2 ^ 50"
    "6 * (sd * (1 + 1 / 2 ^ 50)) * of_int sz = A + A / 2 ^ 50"
    by (simp_all add: A_def algebra_simps)
  have d: "0 \<le> A / 2 ^ 50" using z by simp
  have m: "of_int (k - 1) * pi < 6 * sd * of_int sz" "6 * sd * of_int sz \<le> of_int k * pi"
    using assms(1,2) d unfolding e A_def [symmetric] by linarith+
  have "6 * (sd * (1 - 1 / 2 ^ 50)) * of_int sz \<le> of_int k * pi"
    using assms(2) d unfolding e by linarith
  then have lo: "blur_sample_count (sd * (1 - 1 / 2 ^ 50)) sz = k"
    by (rule blur_sample_count_value [OF assms(1)])
  have "of_int (k - 1) * pi < 6 * (sd * (1 + 1 / 2 ^ 50)) * of_int sz"
    using assms(1) d unfolding e by linarith
  then have hi: "blur_sample_count (sd * (1 + 1 / 2 ^ 50)) sz = k"
    by (rule blur_sample_count_value [OF _ assms(2)])
  show s: "count_settled sd sz" by (simp only: count_settled_def lo hi)
  show n: "blur_sample_count sd sz = k" by (rule blur_sample_count_value [OF m])
  show "double_sample_count sd sz = k"
    using double_sample_count_settled [OF s assms(3,4)] n by simp
qed

lemma fl_eq:
  assumes "2 ^ 52 \<le> \<bar>x\<bar> * 2 ^ m" "\<bar>x\<bar> * 2 ^ m < 2 ^ 53"
  shows "fl x = of_int (round_even (x * 2 ^ m)) / 2 ^ m"
proof -
  have x: "x \<noteq> 0" using assms(1) by auto
  define e where "e = 52 - int m"
  have p: "(2::real) powi e = 2 ^ 52 / 2 ^ m"
    by (simp add: e_def power_int_diff)
  have "2 powi e \<le> \<bar>x\<bar>" "\<bar>x\<bar> < 2 powi (e + 1)"
    using assms by (simp_all add: p power_int_add field_simps)
  moreover have "2 powr real_of_int e = 2 powi e" "2 powr real_of_int (e + 1) = 2 powi (e + 1)"
    by (rule powr_real_of_int'; simp)+
  ultimately have "2 powr real_of_int e \<le> \<bar>x\<bar> \<and> \<bar>x\<bar> < 2 powr real_of_int (e + 1)"
    by (simp only:)
  then have "\<lfloor>log 2 \<bar>x\<bar>\<rfloor> = e"
    using x by (subst floor_log_eq_powr_iff) simp_all
  moreover have "(2::real) powi (e - 52) = 1 / 2 ^ m"
    by (simp add: e_def power_int_minus field_simps)
  ultimately show ?thesis
    using x by (simp add: fl_def Let_def)
qed

text \<open>
  Where the standard deviation does not settle the count, the two counts can differ.
  For the double \<open>3094979016512443 / 2 ^ 51\<close> (about 1.374446785945535) at
  resolution 8 the quotient over the reals lies just above 21, so its ceiling is 22,
  while the quotient in doubles is exactly 21. The theorem on requests over the cap is
  stated for the standard deviations that settle the count.
\<close>

lemma boundary_request:
  "double_sample_count (3094979016512443 / 2 ^ 51) 8 = 21"
  "blur_sample_count (3094979016512443 / 2 ^ 51) 8 = 22"
  "\<not> count_settled (3094979016512443 / 2 ^ 51) 8"
proof -
  have a: "fl (3 * (3094979016512443 / 2 ^ 51)) = 580308565596083 / 2 ^ 47"
    by (subst fl_eq [of _ 50]) (simp_all add: round_even_def)
  have b: "fl (580308565596083 / 2 ^ 47 * real_of_int 8) = 580308565596083 / 2 ^ 44"
    by (subst fl_eq [of _ 47]) (simp_all add: round_even_def)
  have c: "fl (580308565596083 / 2 ^ 44 * 2) = 580308565596083 / 2 ^ 43"
    by (subst fl_eq [of _ 46]) (simp_all add: round_even_def)
  have d: "fl (580308565596083 / 2 ^ 43 / Math_PI) = 21"
    by (subst fl_eq [of _ 48]) (simp_all add: round_even_def Math_PI_def)
  show "double_sample_count (3094979016512443 / 2 ^ 51) 8 = 21"
    by (simp only: double_sample_count_def a b c d) simp
  show n: "blur_sample_count (3094979016512443 / 2 ^ 51) 8 = 22"
    using pi_fine by (intro blur_sample_count_value) simp_all
  have "blur_sample_count (3094979016512443 / 2 ^ 51 * (1 - 1 / 2 ^ 50)) 8 = 21"
    using pi_fine by (intro blur_sample_count_value) simp_all
  moreover have "blur_sample_count (3094979016512443 / 2 ^ 51 * (1 + 1 / 2 ^ 50)) 8 = 22"
    using pi_fine by (intro blur_sample_count_value) simp_all
  ultimately show "\<not> count_settled (3094979016512443 / 2 ^ 51) 8"
    by (simp only: count_settled_def)
qed

lemmas tail_values_over_cap =
  tail_21 tail_22 tail_23 tail_24 tail_25 tail_26 tail_27 tail_28 tail_29 tail_30 tail_31
  tail_32 tail_33 tail_34 tail_35 tail_36 tail_37 tail_38 tail_39 tail_40 tail_41 tail_42
  tail_43 tail_44 tail_45 tail_46 tail_47

lemma over_cap_enclosure:
  assumes "MAX_SAMPLES < n" "n \<le> 47"
  shows "weight_below 997 n"
proof -
  have "list_all (weight_below 997) [21..47]"
    by (simp add: weight_below_def tail_values_over_cap FX_def)
  moreover have "n \<in> set [21..47]"
    using assms by (simp del: upto_rec_numeral add: MAX_SAMPLES_def)
  ultimately show ?thesis
    unfolding list_all_iff by blast
qed

lemma weight_total_over_cap:
  assumes "MAX_SAMPLES < n"
  shows "0 < weight_total n"
    and "weight_total n \<le> 117 / (of_int (n - 1) * sqrt (2 * pi))"
    and "weight_total n = 2 * sum_list (map (blur_weight n) [0..MAX_SAMPLES - 1]) - blur_weight n 0"
    and "weight_total n < 997 / 1000"
    and "weight_total n < 47 / of_int (n - 1)"
proof -
  let ?S = "sum_list (map (\<lambda>i. exp (- gauss_arg n i)) [1..MAX_SAMPLES - 1])"
  have n: "1 \<le> n" "2 \<le> n" "min n MAX_SAMPLES = MAX_SAMPLES"
    using assms by (simp_all add: MAX_SAMPLES_def)
  have w: "weight_total n = inverseIntegral n * (1 + 2 * ?S)"
    using weight_total_sum(2) [OF n(1)] by (simp add: n(3))
  have "0 \<le> ?S" by (rule sum_list_nonneg) auto
  then show "0 < weight_total n"
    using inverseIntegral_pos [OF n(2)] by (simp add: w zero_less_mult_iff)
  have "?S \<le> sum_list (map (\<lambda>i. 1) [1..MAX_SAMPLES - 1])"
    by (rule sum_list_mono) (simp add: gauss_arg_nonneg)
  also have "\<dots> = 19"
    by (simp add: MAX_SAMPLES_def upto_rec1)
  finally have "1 + 2 * ?S \<le> 39" by simp
  then have "inverseIntegral n * (1 + 2 * ?S) \<le> inverseIntegral n * 39"
    using inverseIntegral_pos [OF n(2)] by (intro mult_left_mono) simp_all
  then show crude: "weight_total n \<le> 117 / (of_int (n - 1) * sqrt (2 * pi))"
    by (simp add: w inverseIntegral_def)
  show "weight_total n = 2 * sum_list (map (blur_weight n) [0..MAX_SAMPLES - 1]) - blur_weight n 0"
    using weight_total_sum(1) [OF n(1)] by (simp add: n(3))
  show "weight_total n < 997 / 1000"
  proof (cases "n \<le> 47")
    case True
    then show ?thesis
      using weight_below_sound [OF n(2), of 997] over_cap_enclosure [OF assms] by simp
  next
    case False
    then have "(47::real) \<le> of_int (n - 1)" by simp
    then have "47 * (250662827 / 10 ^ 8) \<le> of_int (n - 1) * sqrt (2 * pi)"
      using sqrt_2pi_bounds(1) by (intro mult_mono) simp_all
    then have "117 / (of_int (n - 1) * sqrt (2 * pi)) \<le> 117 / (47 * (250662827 / 10 ^ 8))"
      by (intro divide_left_mono) simp_all
    also have "\<dots> < 997 / 1000" by simp
    finally show ?thesis using crude by linarith
  qed
  have m: "(0::real) < of_int (n - 1)" using n(2) by simp
  have "of_int (n - 1) * (250662827 / 10 ^ 8) \<le> of_int (n - 1) * sqrt (2 * pi)"
    using sqrt_2pi_bounds(1) m by (intro mult_left_mono) simp_all
  then have "117 / (of_int (n - 1) * sqrt (2 * pi)) \<le> 117 / (of_int (n - 1) * (250662827 / 10 ^ 8))"
    using m by (intro divide_left_mono) simp_all
  also have "\<dots> = (117 / (250662827 / 10 ^ 8)) / of_int (n - 1)" by simp
  also have "\<dots> < 47 / of_int (n - 1)"
    using m by (intro divide_strict_right_mono) simp_all
  finally show "weight_total n < 47 / of_int (n - 1)" using crude by linarith
qed

lemma shader_indices_over_cap:
  assumes "MAX_SAMPLES < n"
  shows "remdups (map fst (shader_taps n)) = [0..MAX_SAMPLES - 1]"
proof -
  have "1 \<le> n" "min n MAX_SAMPLES = MAX_SAMPLES" using assms by (simp_all add: MAX_SAMPLES_def)
  then have "takeWhile (\<lambda>i. \<not> i \<ge> n) [0..MAX_SAMPLES - 1] = [0..MAX_SAMPLES - 1]"
    using shader_indices [of n] by simp
  then show ?thesis
    by (simp add: shader_taps_def) (simp add: MAX_SAMPLES_def upto_rec1)
qed

lemma lodSize_range:
  assumes "0 \<le> j" "j \<le> 8"
  shows "8 \<le> lodSize PMREMGenerator ! nat j" "lodSize PMREMGenerator ! nat j \<le> 256"
  using int_range_cases [OF assms] by (auto simp add: lodSize_PMREMGenerator)

text \<open>
  C7, amended: take a blur between two LODs of the planner whose sample count \<open>n\<close>
  exceeds \<open>MAX_SAMPLES\<close>, is settled by the standard deviation, and is below \<open>2 ^ 10\<close>
  (the range that GLSL ES guarantees for the \<open>precision mediump int\<close> of the shader,
  which holds \<open>samples\<close>). Then the standard deviation lies between 0 and 128, the
  computation in doubles gives the same \<open>n\<close>, the blur returns, and it writes one console
  line with the standard deviation, \<open>n\<close> and \<open>MAX_SAMPLES\<close>. The \<open>samples\<close> uniform
  holds the unclamped \<open>n\<close>; the bound of the shader's loop cuts the sample indices used
  to \<open>0 .. MAX_SAMPLES - 1\<close>. The \<open>MAX_SAMPLES\<close> weights are those spaced for \<open>n\<close>
  samples, not renormalised: their total over both directions is positive, below 0.997
  and below \<open>47 / (n - 1)\<close>.
\<close>

theorem over_cap_blur:
  assumes "0 \<le> lodIn" "lodIn \<le> TOTAL_LODS - 1" "0 \<le> lodOut" "lodOut \<le> TOTAL_LODS - 1"
    and "count_settled sd (lodSize PMREMGenerator ! nat lodIn)"
    and "MAX_SAMPLES < blur_sample_count sd (lodSize PMREMGenerator ! nat lodIn)"
    and "blur_sample_count sd (lodSize PMREMGenerator ! nat lodIn) < 2 ^ 10"
  shows "(let n = blur_sample_count sd (lodSize PMREMGenerator ! nat lodIn)
          in \<exists>st'. gaussianBlur PMREMGenerator enc lodIn lodOut sd st = Some st'
            \<and> 0 < sd \<and> sd < 128
            \<and> double_sample_count sd (lodSize PMREMGenerator ! nat lodIn) = n
            \<and> console st' = console st @ [(sd, n, MAX_SAMPLES)]
            \<and> map (samples \<circ> drawUniforms) (drop (length (draws st)) (draws st')) = [n, n]
            \<and> map (weights \<circ> drawUniforms) (drop (length (draws st)) (draws st')) =
                [Some (blur_weights n), Some (blur_weights n)]
            \<and> length (blur_weights n) = nat MAX_SAMPLES
            \<and> remdups (map fst (shader_taps n)) = [0..MAX_SAMPLES - 1]
            \<and> weight_total n =
                2 * sum_list (map (blur_weight n) [0..MAX_SAMPLES - 1]) - blur_weight n 0
            \<and> 0 < weight_total n
            \<and> weight_total n < 47 / of_int (n - 1)
            \<and> weight_total n < 997 / 1000)"
proof -
  define sz where "sz = lodSize PMREMGenerator ! nat lodIn"
  define n where "n = blur_sample_count sd sz"
  from assms(1-4) have r: "0 \<le> lodIn" "lodIn \<le> 8" "0 \<le> lodOut" "lodOut \<le> 8"
    by (simp_all add: lod_consts)
  have a: "js_index (lodSize PMREMGenerator) lodIn = Some sz"
    and b: "js_index (lodSize PMREMGenerator) lodOut = Some (lodSize PMREMGenerator ! nat lodOut)"
    using r by (simp_all add: js_index_lodSize sz_def)
  have sz: "8 \<le> sz" "sz \<le> 256" using lodSize_range [OF r(1,2)] by (simp_all add: sz_def)
  have n: "MAX_SAMPLES < n" "n < 2 ^ 10" using assms(6,7) by (simp_all add: n_def sz_def)
  define q where "q = 3 * sd * of_int sz * 2 / pi"
  have nq: "n = \<lceil>q\<rceil>" by (simp add: n_def q_def blur_sample_count_def)
  have "20 < \<lceil>q\<rceil>" using n(1) by (simp add: nq MAX_SAMPLES_def)
  then have "20 < q" by (simp add: less_ceiling_iff)
  then have "0 < q" by simp
  then have "0 < 3 * sd * of_int sz * 2" by (simp add: q_def zero_less_divide_iff)
  then have sd0: "0 < sd" using sz(1) by (simp add: zero_less_mult_iff)
  have "\<lceil>q\<rceil> \<le> 1023" using n(2) by (simp add: nq)
  then have "q \<le> 1023" by (simp add: ceiling_le_iff)
  then have "3 * sd * of_int sz * 2 \<le> 1023 * pi" by (simp add: q_def pos_divide_le_eq)
  moreover have "6 * sd * 8 \<le> 6 * sd * of_int sz"
    using sd0 sz(1) by (intro mult_left_mono) simp_all
  ultimately have "48 * sd \<le> 1023 * pi" by (simp add: mult_ac)
  then have sd1: "sd < 128" using pi_bounds(2) by simp
  have dc: "double_sample_count sd sz = n"
    using double_sample_count_settled [of sd sz] assms(5) sd0 sz(1) by (simp add: sz_def n_def)
  from gaussianBlur_defined [OF a b] obtain st'
    where st': "gaussianBlur PMREMGenerator enc lodIn lodOut sd st = Some st'" by blast
  have c: "console st' = console st @ [(sd, n, MAX_SAMPLES)]"
    using n by (simp add: gaussianBlur_effect(2) [OF st'] blur_pass_console_eq [OF a b] n_def)
  have s: "map (samples \<circ> drawUniforms) (drop (length (draws st)) (draws st')) = [n, n]"
    by (simp add: gaussianBlur_effect(1) [OF st'] blur_pass_draws_fields(4) [OF a b] n_def)
  have w: "map (weights \<circ> drawUniforms) (drop (length (draws st)) (draws st')) =
      [Some (blur_weights n), Some (blur_weights n)]"
    by (simp add: gaussianBlur_effect(1) [OF st'] blur_pass_draws_fields(5) [OF a b] n_def)
  note l = length_blur_weights [of n] and t = shader_indices_over_cap [OF n(1)]
    and o = weight_total_over_cap [OF n(1)]
  have "\<exists>st'. gaussianBlur PMREMGenerator enc lodIn lodOut sd st = Some st'
            \<and> 0 < sd \<and> sd < 128
            \<and> double_sample_count sd sz = n
            \<and> console st' = console st @ [(sd, n, MAX_SAMPLES)]
            \<and> map (samples \<circ> drawUniforms) (drop (length (draws st)) (draws st')) = [n, n]
            \<and> map (weights \<circ> drawUniforms) (drop (length (draws st)) (draws st')) =
                [Some (blur_weights n), Some (blur_weights n)]
            \<and> length (blur_weights n) = nat MAX_SAMPLES
            \<and> remdups (map fst (shader_taps n)) = [0..MAX_SAMPLES - 1]
            \<and> weight_total n =
                2 * sum_list (map (blur_weight n) [0..MAX_SAMPLES - 1]) - blur_weight n 0
            \<and> 0 < weight_total n
            \<and> weight_total n < 47 / of_int (n - 1)
            \<and> weight_total n < 997 / 1000"
    by (intro exI [of _ st'] conjI; fact st' sd0 sd1 dc c s w l t o)
  then show ?thesis
    unfolding Let_def n_def sz_def .
qed

theorem over_cap_blur_witness:
  "(0::int) \<le> 5 \<and> 5 \<le> TOTAL_LODS - 1 \<and> (0::int) \<le> 6 \<and> 6 \<le> TOTAL_LODS - 1
   \<and> lodSize PMREMGenerator ! 5 = 8
   \<and> count_settled (11 / 8) 8
   \<and> blur_sample_count (11 / 8) 8 = 22 \<and> MAX_SAMPLES < 22 \<and> (22::int) < 2 ^ 10
   \<and> double_sample_count (11 / 8) 8 = 22
   \<and> (\<exists>st'. gaussianBlur PMREMGenerator LinearEncoding 5 6 (11 / 8) idle_engine = Some st'
        \<and> console st' = [(11 / 8, 22, 20)]
        \<and> map (samples \<circ> drawUniforms) (draws st') = [22, 22])
   \<and> weight_total 22 < 997 / 1000"
proof -
  have r: "(0::int) \<le> 5" "5 \<le> TOTAL_LODS - 1" "(0::int) \<le> 6" "6 \<le> TOTAL_LODS - 1"
    by (simp_all add: lod_consts)
  have sz: "lodSize PMREMGenerator ! nat 5 = 8" "lodSize PMREMGenerator ! 5 = 8"
    by (simp_all add: lodSize_PMREMGenerator)
  have v: "count_settled (11 / 8) 8" "blur_sample_count (11 / 8) 8 = 22"
    using pi_bounds by (intro count_settled_value [of 22]; simp)+
  have h: "count_settled (11 / 8) (lodSize PMREMGenerator ! nat 5)"
    "MAX_SAMPLES < blur_sample_count (11 / 8) (lodSize PMREMGenerator ! nat 5)"
    "blur_sample_count (11 / 8) (lodSize PMREMGenerator ! nat 5) < 2 ^ 10"
    by (simp_all add: sz v MAX_SAMPLES_def)
  show ?thesis
    using over_cap_blur [OF r h, of LinearEncoding idle_engine]
    by (auto simp add: lod_consts sz v MAX_SAMPLES_def idle_engine_def Let_def)
qed

text \<open>
  The claim as stated fails for a standard deviation of one radian at input
  resolution 256: 489 samples are requested, also by the computation in doubles, the
  \<open>samples\<close> uniform holds 489, and the 20 weights used sum to less than 0.1 over both
  directions.
\<close>

theorem over_cap_counterexample:
  "blur_sample_count 1 256 = 489 \<and> double_sample_count 1 256 = 489 \<and> MAX_SAMPLES < 489
   \<and> map (samples \<circ> drawUniforms) (blur_pass_draws PMREMGenerator LinearEncoding 0 1 1) =
       [489, 489]
   \<and> map (weights \<circ> drawUniforms) (blur_pass_draws PMREMGenerator LinearEncoding 0 1 1) =
       [Some (blur_weights 489), Some (blur_weights 489)]
   \<and> weight_total 489 < 1 / 10
   \<and> \<not> \<bar>weight_total 489 - 1\<bar> \<le> 1 / 1000"
proof -
  have a: "js_index (lodSize PMREMGenerator) 0 = Some 256"
    and b: "js_index (lodSize PMREMGenerator) 1 = Some 128"
    by (simp_all add: js_index_def lodSize_PMREMGenerator)
  have n: "blur_sample_count 1 256 = 489" "double_sample_count 1 256 = 489"
    using pi_bounds by (intro count_settled_value [of 489]; simp)+
  have m: "MAX_SAMPLES < 489" by (simp add: MAX_SAMPLES_def)
  have t: "weight_total 489 < 1 / 10"
    using weight_total_over_cap(5) [OF m] by simp
  then have f: "\<not> \<bar>weight_total 489 - 1\<bar> \<le> 1 / 1000" by linarith
  have s: "map (samples \<circ> drawUniforms) (blur_pass_draws PMREMGenerator LinearEncoding 0 1 1) =
       [489, 489]"
    using blur_pass_draws_fields(4) [OF a b, of LinearEncoding 1] by (simp add: n)
  have w: "map (weights \<circ> drawUniforms) (blur_pass_draws PMREMGenerator LinearEncoding 0 1 1) =
       [Some (blur_weights 489), Some (blur_weights 489)]"
    using blur_pass_draws_fields(5) [OF a b, of LinearEncoding 1] by (simp add: n)
  show ?thesis
    by (intro conjI; fact n m s w t f)
qed

end
